theory Spec2Isabelle
  imports Main "HOL-Library.Word" "HOL-Library.Sublist"
begin

section \<open>Base types (base/types.h, symbols/image.h, symbols/symbol.h)\<close>

text \<open>
  \<^verbatim>\<open>base/types.h\<close> and \<^verbatim>\<open>symbols/image.h\<close> are not among the sources; the widths
  below are the ones the specification gives: addresses, offsets and process ids are
  unsigned 64-bit integers, an image has a 64-bit size, a 32-bit checksum, a 32-bit
  timestamp and a wide-string file name. A wide character is a UTF-16 code unit.
  Arithmetic on these types wraps modulo \<open>2 ^ 64\<close>, as unsigned arithmetic in C++ does.
\<close>

type_synonym Address = "64 word"
type_synonym Offset = "64 word"
type_synonym Pid = "64 word"
type_synonym wstring = "16 word list"

record Image =
  img_size :: "64 word"
  img_checksum :: "32 word"
  img_timestamp :: "32 word"
  img_filename :: wstring

text \<open>\<^verbatim>\<open>class Symbol\<close> of symbols/symbol.h: a name, an offset in the image, a size.\<close>

record Symbol =
  sym_name :: wstring
  sym_offset :: Offset
  sym_size :: "64 word"

section \<open>The ordered map \<^verbatim>\<open>std::map<base::Address, symbols::Image>\<close>\<close>

text \<open>
  An ordered map is the list of its entries in ascending key order, no key twice.
  An iterator is the index of an entry; \<open>end()\<close> is the length of the list and
  \<open>begin()\<close> is 0.
\<close>

type_synonym Images = "(Address \<times> Image) list"

definition images_ok :: "Images \<Rightarrow> bool" where
  "images_ok m = sorted_wrt (<) (map fst m)"

text \<open>\<^verbatim>\<open>m[key] = value\<close>: insert the key, or overwrite the value it has.\<close>

fun map_assign :: "Address \<Rightarrow> Image \<Rightarrow> Images \<Rightarrow> Images" where
  "map_assign key val [] = [(key, val)]"
| "map_assign key val (e # m) =
     (if fst e = key then (key, val) # m
      else if key < fst e then (key, val) # e # m
      else e # map_assign key val m)"

text \<open>\<^verbatim>\<open>m.erase(key)\<close>: remove the entry of the key if there is one.\<close>

fun map_erase :: "Address \<Rightarrow> Images \<Rightarrow> Images" where
  "map_erase key [] = []"
| "map_erase key (e # m) = (if fst e = key then m else e # map_erase key m)"

text \<open>\<^verbatim>\<open>m.upper_bound(key)\<close>: the iterator to the first entry whose key is greater
  than \<open>key\<close>, \<open>end()\<close> if there is none.\<close>

fun upper_bound :: "Address \<Rightarrow> Images \<Rightarrow> nat" where
  "upper_bound key [] = 0"
| "upper_bound key (e # m) = (if key < fst e then 0 else Suc (upper_bound key m))"

section \<open>SymbolsResolver (symbols/symbols_resolver.cc)\<close>

text \<open>
  The resolver owns \<^verbatim>\<open>pid_to_images_\<close>, an unordered map from a pid to the ordered map
  of the images loaded in that process, and \<^verbatim>\<open>symbol_cache_\<close>, a map from an image to
  its table of symbols.
\<close>

record SymbolsResolver =
  pid_to_images :: "Pid \<rightharpoonup> Images"
  symbol_cache :: "Image \<rightharpoonup> Symbol list"

definition new_resolver :: SymbolsResolver where
  "new_resolver = \<lparr> pid_to_images = Map.empty, symbol_cache = Map.empty \<rparr>"

text \<open>\<^verbatim>\<open>pid_to_images_[pid][base_address] = image\<close>: \<open>operator[]\<close> on the outer map
  creates an empty bucket for a pid that has none.\<close>

definition LoadImage :: "SymbolsResolver \<Rightarrow> Pid \<Rightarrow> Address \<Rightarrow> Image \<Rightarrow> SymbolsResolver" where
  "LoadImage st pid base_address img =
     st\<lparr> pid_to_images := (pid_to_images st)
           (pid \<mapsto> map_assign base_address img
                     (case pid_to_images st pid of None \<Rightarrow> [] | Some m \<Rightarrow> m)) \<rparr>"

definition UnloadImage :: "SymbolsResolver \<Rightarrow> Pid \<Rightarrow> Address \<Rightarrow> SymbolsResolver" where
  "UnloadImage st pid base_address =
     (case pid_to_images st pid of
        None \<Rightarrow> st
      | Some m \<Rightarrow> st\<lparr> pid_to_images := (pid_to_images st)(pid \<mapsto> map_erase base_address m) \<rparr>)"

text \<open>
  \<^verbatim>\<open>FindImage\<close> returns the image and, through \<^verbatim>\<open>image_base_address\<close>, its base;
  \<open>None\<close> is \<^verbatim>\<open>nullptr\<close>. The test \<^verbatim>\<open>address >= image_it->first + image_it->second.size\<close>
  is on 64-bit unsigned values, so the sum wraps.
\<close>

definition FindImage :: "SymbolsResolver \<Rightarrow> Pid \<Rightarrow> Address \<Rightarrow> (Address \<times> Image) option" where
  "FindImage st pid address =
     (case pid_to_images st pid of
        None \<Rightarrow> None
      | Some process_images \<Rightarrow>
          if process_images = [] then None
          else let image_it = upper_bound address process_images in
            if image_it = 0 then None
            else let image_it = image_it - 1 in
              if image_it = length process_images then None
              else let e = process_images ! image_it in
                if address \<ge> fst e + img_size (snd e) then None
                else Some e)"

text \<open>The entries of a process, none for a pid without a bucket.\<close>

definition entries :: "SymbolsResolver \<Rightarrow> Pid \<Rightarrow> Images" where
  "entries st pid = (case pid_to_images st pid of None \<Rightarrow> [] | Some m \<Rightarrow> m)"

text \<open>The representation invariant of the resolver: every bucket is an ordered map.\<close>

definition resolver_ok :: "SymbolsResolver \<Rightarrow> bool" where
  "resolver_ok st = (\<forall>pid m. pid_to_images st pid = Some m \<longrightarrow> images_ok m)"

subsection \<open>Symbol tables\<close>

text \<open>\<^verbatim>\<open>SymbolOffsetComparison\<close>, the comparison handed to \<^verbatim>\<open>std::upper_bound\<close>.\<close>

definition SymbolOffsetComparison :: "Offset \<Rightarrow> Symbol \<Rightarrow> bool" where
  "SymbolOffsetComparison offset symbol = (offset < sym_offset symbol)"

text \<open>\<^verbatim>\<open>std::upper_bound(first, last, value, comp)\<close>: the iterator to the first element
  \<open>x\<close> with \<open>comp(value, x)\<close>, \<open>last\<close> if there is none. The library finds it by binary
  search, which on a range partitioned by \<open>comp\<close> is the position computed here.\<close>

fun std_upper_bound :: "('v \<Rightarrow> 'e \<Rightarrow> bool) \<Rightarrow> 'v \<Rightarrow> 'e list \<Rightarrow> nat" where
  "std_upper_bound cmp v [] = 0"
| "std_upper_bound cmp v (x # xs) = (if cmp v x then 0 else Suc (std_upper_bound cmp v xs))"

text \<open>
  \<^verbatim>\<open>GetImageSymbols\<close>: the cached table of the image, or, on the first query, the
  symbols that the enumeration collaborator reports, sorted and stored in the cache.
  \<open>enum_symbols\<close> stands for \<^verbatim>\<open>DbghelpWrapper::EnumerateSymbols\<close>, which calls the native
  debug library: it is a parameter. The order \<^verbatim>\<open>std::sort\<close> uses is the \<open>operator<\<close>
  of \<^verbatim>\<open>Symbol\<close>, which is not among the sources.
  Modelled from the spec: the missing order is ascending \<open>offset\<close>.
\<close>

definition GetImageSymbols ::
  "(Image \<Rightarrow> Symbol list) \<Rightarrow> SymbolsResolver \<Rightarrow> Image \<Rightarrow> Symbol list \<times> SymbolsResolver" where
  "GetImageSymbols enum_symbols st img =
     (case symbol_cache st img of
        Some image_symbols \<Rightarrow> (image_symbols, st)
      | None \<Rightarrow>
          let image_symbols = sort_key sym_offset (enum_symbols img)
          in (image_symbols, st\<lparr> symbol_cache := (symbol_cache st)(img \<mapsto> image_symbols) \<rparr>))"

text \<open>
  \<^verbatim>\<open>ResolveSymbol\<close>. The body is compiled only when \<^verbatim>\<open>USE_DBGHELP\<close> is defined;
  \<open>use_dbghelp\<close> is that build flag. \<open>None\<close> is the return value \<^verbatim>\<open>false\<close>; the new
  state is returned with the result, since a first query fills the cache.
\<close>

definition ResolveSymbol ::
  "bool \<Rightarrow> (Image \<Rightarrow> Symbol list) \<Rightarrow> SymbolsResolver \<Rightarrow> Pid \<Rightarrow> Address
     \<Rightarrow> Symbol option \<times> SymbolsResolver" where
  "ResolveSymbol use_dbghelp enum_symbols st pid address =
     (if use_dbghelp then
        (case FindImage st pid address of
           None \<Rightarrow> (None, st)
         | Some (image_base_address, img) \<Rightarrow>
             let (image_symbols, st') = GetImageSymbols enum_symbols st img;
                 offset = address - image_base_address;
                 it = std_upper_bound SymbolOffsetComparison offset image_symbols
             in if it = 0 then (None, st')
                else let it = it - 1 in
                  if it = length image_symbols then (None, st')
                  else if offset > sym_offset (image_symbols ! it) + sym_size (image_symbols ! it)
                    then (None, st')
                    else (Some (image_symbols ! it), st'))
      else (None, st))"

text \<open>Every cached table is in ascending order of offset.\<close>

definition cache_ok :: "SymbolsResolver \<Rightarrow> bool" where
  "cache_ok st = (\<forall>img t. symbol_cache st img = Some t \<longrightarrow> sorted (map sym_offset t))"

subsection \<open>Sequences of calls\<close>

datatype call = Load Pid Address Image | Unload Pid Address

fun apply_call :: "SymbolsResolver \<Rightarrow> call \<Rightarrow> SymbolsResolver" where
  "apply_call st (Load pid base_address img) = LoadImage st pid base_address img"
| "apply_call st (Unload pid base_address) = UnloadImage st pid base_address"

definition run_calls :: "call list \<Rightarrow> SymbolsResolver" where
  "run_calls cs = foldl apply_call new_resolver cs"

text \<open>
  The currently-live entries after a sequence of calls, read off the sequence alone:
  the entry at \<open>(pid, base)\<close> is live with image \<open>I\<close> when the last call on
  \<open>(pid, base)\<close> is a load of \<open>I\<close>.
\<close>

fun touches :: "call \<Rightarrow> Pid \<Rightarrow> Address \<Rightarrow> bool" where
  "touches (Load p b' i) pid b = (p = pid \<and> b' = b)"
| "touches (Unload p b') pid b = (p = pid \<and> b' = b)"

definition live :: "call list \<Rightarrow> Pid \<Rightarrow> Address \<Rightarrow> Image option" where
  "live cs pid b =
     (case filter (\<lambda>c. touches c pid b) cs of
        [] \<Rightarrow> None
      | t # ts \<Rightarrow> (case last (t # ts) of Load p b' i \<Rightarrow> Some i | Unload p b' \<Rightarrow> None))"

section \<open>Values and events (event/value.h, event/event.h)\<close>

text \<open>
  Modelled from the spec: \<^verbatim>\<open>event/value.h\<close> and \<^verbatim>\<open>event/event.h\<close> are not among the
  sources. A value is a signed or unsigned integer of 8, 16, 32 or 64 bits, a float of
  32 or 64 bits (kept as its bit pattern), a narrow or a wide string, an array, or a
  struct: the sequence of its named fields in insertion order.
\<close>

datatype Value =
    CharValue "8 word" | UCharValue "8 word"
  | ShortValue "16 word" | UShortValue "16 word"
  | IntValue "32 word" | UIntValue "32 word"
  | LongValue "64 word" | ULongValue "64 word"
  | FloatValue "32 word" | DoubleValue "64 word"
  | StringValue string | WStringValue wstring
  | ArrayValue "Value list"
  | StructValue "(string \<times> Value) list"

text \<open>Modelled from the spec: \<open>add_field\<close> appends; duplicate names are permitted.\<close>

definition AddField :: "string \<Rightarrow> Value \<Rightarrow> (string \<times> Value) list \<Rightarrow> (string \<times> Value) list" where
  "AddField name v flds = flds @ [(name, v)]"

text \<open>Modelled from the spec: \<open>get_field\<close> returns the first field of that name;
  it is absent on a value that is not a struct.\<close>

fun GetField :: "Value \<Rightarrow> string \<Rightarrow> Value option" where
  "GetField (StructValue flds) name = map_of flds name"
| "GetField _ name = None"

text \<open>Modelled from the spec: the widening accessor succeeds when the stored kind is
  integral and fails otherwise. An unsigned value is zero-extended; a signed one is
  converted as a C++ cast to \<^verbatim>\<open>uint64_t\<close> does.\<close>

fun GetAsULong :: "Value \<Rightarrow> 64 word option" where
  "GetAsULong (UCharValue v) = Some (ucast v)"
| "GetAsULong (UShortValue v) = Some (ucast v)"
| "GetAsULong (UIntValue v) = Some (ucast v)"
| "GetAsULong (ULongValue v) = Some v"
| "GetAsULong (CharValue v) = Some (scast v)"
| "GetAsULong (ShortValue v) = Some (scast v)"
| "GetAsULong (IntValue v) = Some (scast v)"
| "GetAsULong (LongValue v) = Some v"
| "GetAsULong _ = None"

definition GetFieldAsULong :: "Value \<Rightarrow> string \<Rightarrow> 64 word option" where
  "GetFieldAsULong v name = (case GetField v name of None \<Rightarrow> None | Some f \<Rightarrow> GetAsULong f)"

text \<open>\<^verbatim>\<open>GetFieldAsUInteger\<close> writes an unsigned integer of the width of its target.\<close>

definition GetFieldAsUInteger :: "Value \<Rightarrow> string \<Rightarrow> 'a::len word option" where
  "GetFieldAsUInteger v name = map_option ucast (GetFieldAsULong v name)"

definition GetFieldAsString :: "Value \<Rightarrow> string \<Rightarrow> string option" where
  "GetFieldAsString v name =
     (case GetField v name of Some (StringValue s) \<Rightarrow> Some s | _ \<Rightarrow> None)"

definition GetFieldAsWString :: "Value \<Rightarrow> string \<Rightarrow> wstring option" where
  "GetFieldAsWString v name =
     (case GetField v name of Some (WStringValue s) \<Rightarrow> Some s | _ \<Rightarrow> None)"

text \<open>\<^verbatim>\<open>GetFieldAs<event::ArrayValue>\<close>.\<close>

definition GetFieldAsArray :: "Value \<Rightarrow> string \<Rightarrow> Value list option" where
  "GetFieldAsArray v name =
     (case GetField v name of Some (ArrayValue vs) \<Rightarrow> Some vs | _ \<Rightarrow> None)"

text \<open>Modelled from the spec: the well-known names of the header fields.\<close>

definition kOperationFieldName :: string where "kOperationFieldName = ''operation''"
definition kCategoryFieldName :: string where "kCategoryFieldName = ''category''"
definition kProcessIdFieldName :: string where "kProcessIdFieldName = ''process_id''"
definition kThreadIdFieldName :: string where "kThreadIdFieldName = ''thread_id''"
definition kProcessorNumberFieldName :: string where
  "kProcessorNumberFieldName = ''processor_number''"

record Event =
  ev_timestamp :: "64 word"
  header :: Value
  payload :: Value

section \<open>The state sink (state/current_state.cc)\<close>

definition kImageCategory :: string where "kImageCategory = ''Image''"
definition kImageLoadOperation :: string where "kImageLoadOperation = ''Load''"
definition kImageDCStartOperation :: string where "kImageDCStartOperation = ''DCStart''"
definition kImageUnloadOperation :: string where "kImageUnloadOperation = ''Unload''"
definition kImageKernelBase :: string where "kImageKernelBase = ''KernelBase''"
definition kStackWalkCategory :: string where "kStackWalkCategory = ''StackWalk''"
definition kStackOperation :: string where "kStackOperation = ''Stack''"

text \<open>\<^verbatim>\<open>CurrentState\<close> owns the resolver \<^verbatim>\<open>symbols_\<close>.\<close>

record CurrentState =
  symbols :: SymbolsResolver

text \<open>
  \<^verbatim>\<open>OnImageLoad\<close>: the chain of \<^verbatim>\<open>||\<close> stops at the first extraction that fails,
  logs a warning and returns; the image being filled is a local.
\<close>

definition OnImageLoad :: "CurrentState \<Rightarrow> Event \<Rightarrow> CurrentState" where
  "OnImageLoad st event =
     (case GetFieldAsUInteger (payload event) ''ModuleSize'' of None \<Rightarrow> st | Some sz \<Rightarrow>
      case GetFieldAsUInteger (payload event) ''ImageCheckSum'' of None \<Rightarrow> st | Some cs \<Rightarrow>
      case GetFieldAsUInteger (payload event) ''TimeDateStamp'' of None \<Rightarrow> st | Some ts \<Rightarrow>
      case GetFieldAsWString (payload event) ''ImageFileName'' of None \<Rightarrow> st | Some fn \<Rightarrow>
      case GetFieldAsULong (payload event) ''BaseAddress'' of None \<Rightarrow> st | Some base_address \<Rightarrow>
      case GetFieldAsULong (header event) kProcessIdFieldName of None \<Rightarrow> st | Some pid \<Rightarrow>
        st\<lparr> symbols := LoadImage (symbols st) pid base_address
               \<lparr> img_size = sz, img_checksum = cs, img_timestamp = ts, img_filename = fn \<rparr> \<rparr>)"

definition OnImageUnload :: "CurrentState \<Rightarrow> Event \<Rightarrow> CurrentState" where
  "OnImageUnload st event =
     (case GetFieldAsULong (payload event) ''BaseAddress'' of None \<Rightarrow> st | Some base_address \<Rightarrow>
      case GetFieldAsULong (header event) kProcessIdFieldName of None \<Rightarrow> st | Some pid \<Rightarrow>
        st\<lparr> symbols := UnloadImage (symbols st) pid base_address \<rparr>)"

text \<open>
  The loop of \<^verbatim>\<open>OnStackWalk\<close> over the stack array. An element that is not an integer
  ends the function; the cache filled for the elements before it stays filled. The
  vector of names is a local that is dropped when the function returns.
\<close>

fun symbolize ::
  "bool \<Rightarrow> (Image \<Rightarrow> Symbol list) \<Rightarrow> Pid \<Rightarrow> Value list \<Rightarrow> wstring list \<Rightarrow> CurrentState
     \<Rightarrow> CurrentState" where
  "symbolize use_dbghelp enum_symbols pid [] symbolized_stack st = st"
| "symbolize use_dbghelp enum_symbols pid (address_value # stack) symbolized_stack st =
     (case GetAsULong address_value of
        None \<Rightarrow> st
      | Some address \<Rightarrow>
          (case ResolveSymbol use_dbghelp enum_symbols (symbols st) pid address of
             (None, r) \<Rightarrow>
               symbolize use_dbghelp enum_symbols pid stack symbolized_stack (st\<lparr> symbols := r \<rparr>)
           | (Some symbol, r) \<Rightarrow>
               symbolize use_dbghelp enum_symbols pid stack
                 (symbolized_stack @ [sym_name symbol]) (st\<lparr> symbols := r \<rparr>)))"

definition OnStackWalk ::
  "bool \<Rightarrow> (Image \<Rightarrow> Symbol list) \<Rightarrow> CurrentState \<Rightarrow> Event \<Rightarrow> CurrentState" where
  "OnStackWalk use_dbghelp enum_symbols st event =
     (case GetFieldAsULong (payload event) ''EventTimeStamp'' of None \<Rightarrow> st | Some event_ts \<Rightarrow>
      case GetFieldAsULong (payload event) ''StackProcess'' of None \<Rightarrow> st | Some pid \<Rightarrow>
      case GetFieldAsULong (payload event) ''StackThread'' of None \<Rightarrow> st | Some tid \<Rightarrow>
      case GetFieldAsArray (payload event) ''Stack'' of None \<Rightarrow> st | Some stack \<Rightarrow>
        symbolize use_dbghelp enum_symbols pid stack [] st)"

definition OnEvent ::
  "bool \<Rightarrow> (Image \<Rightarrow> Symbol list) \<Rightarrow> CurrentState \<Rightarrow> Event \<Rightarrow> CurrentState" where
  "OnEvent use_dbghelp enum_symbols st event =
     (case GetFieldAsString (header event) kCategoryFieldName of None \<Rightarrow> st | Some category \<Rightarrow>
      case GetFieldAsString (header event) kOperationFieldName of None \<Rightarrow> st | Some operation \<Rightarrow>
        if category = kImageCategory then
          (if operation = kImageLoadOperation \<or> operation = kImageDCStartOperation
             then OnImageLoad st event
           else if operation = kImageUnloadOperation then OnImageUnload st event
           else if operation = kImageKernelBase then st
           else st)
        else if category = kStackWalkCategory \<and> operation = kStackOperation
          then OnStackWalk use_dbghelp enum_symbols st event
        else st)"

section \<open>The byte decoder (parser/decoder.h)\<close>

text \<open>
  Modelled from the spec: \<^verbatim>\<open>parser/decoder.h\<close> is not among the sources. The decoder
  is a cursor: the bytes of the payload and the position of the next unread byte. A
  typed read is little-endian and advances the cursor; a read that would cross the end
  of the buffer fails and leaves the cursor where it is.
\<close>

record Decoder =
  buffer :: "8 word list"
  position :: nat

definition RemainingBytes :: "Decoder \<Rightarrow> nat" where
  "RemainingBytes d = length (buffer d) - position d"

definition read_bytes :: "nat \<Rightarrow> Decoder \<Rightarrow> (8 word list \<times> Decoder) option" where
  "read_bytes n d =
     (if RemainingBytes d < n then None
      else Some (take n (drop (position d) (buffer d)), d\<lparr> position := position d + n \<rparr>))"

text \<open>The value of a little-endian sequence of bytes.\<close>

definition le_word :: "8 word list \<Rightarrow> 'a::len word" where
  "le_word bs = word_rcat (rev bs)"

definition DecodeUChar :: "Decoder \<Rightarrow> (Value \<times> Decoder) option" where
  "DecodeUChar d = map_option (\<lambda>(bs, d'). (UCharValue (le_word bs), d')) (read_bytes 1 d)"

definition DecodeUInt :: "Decoder \<Rightarrow> (Value \<times> Decoder) option" where
  "DecodeUInt d = map_option (\<lambda>(bs, d'). (UIntValue (le_word bs), d')) (read_bytes 4 d)"

definition DecodeULong :: "Decoder \<Rightarrow> (Value \<times> Decoder) option" where
  "DecodeULong d = map_option (\<lambda>(bs, d'). (ULongValue (le_word bs), d')) (read_bytes 8 d)"

text \<open>\<open>lookup(offset)\<close>: the byte at \<open>offset\<close> from the position, without advancing.\<close>

definition Lookup :: "Decoder \<Rightarrow> nat \<Rightarrow> 8 word option" where
  "Lookup d offset =
     (if position d + offset < length (buffer d) then Some (buffer d ! (position d + offset))
      else None)"

section \<open>Composite decoders (parser/etw/etw_raw_payload_decoder_utils.cc)\<close>

text \<open>
  Modelled from the spec: the templates \<^verbatim>\<open>Decode<T>(name, decoder, fields)\<close> and
  \<^verbatim>\<open>DecodeArray<T>(name, length, decoder, fields)\<close> are declared in the header of this
  file, which is not among the sources. \<open>Decode\<close> reads one value and appends it to the
  fields under the name; \<open>DecodeArray\<close> reads \<open>length\<close> values and appends the array.
  The result is the returned flag, the cursor and the fields.
\<close>

type_synonym Fields = "(string \<times> Value) list"

definition Decode ::
  "(Decoder \<Rightarrow> (Value \<times> Decoder) option) \<Rightarrow> string \<Rightarrow> Decoder \<Rightarrow> Fields
     \<Rightarrow> bool \<times> Decoder \<times> Fields" where
  "Decode rd name d flds =
     (case rd d of None \<Rightarrow> (False, d, flds) | Some (v, d') \<Rightarrow> (True, d', AddField name v flds))"

fun read_array ::
  "(Decoder \<Rightarrow> (Value \<times> Decoder) option) \<Rightarrow> nat \<Rightarrow> Decoder \<Rightarrow> (Value list \<times> Decoder) option" where
  "read_array rd 0 d = Some ([], d)"
| "read_array rd (Suc n) d =
     (case rd d of
        None \<Rightarrow> None
      | Some (v, d') \<Rightarrow>
          (case read_array rd n d' of None \<Rightarrow> None | Some (vs, d'') \<Rightarrow> Some (v # vs, d'')))"

definition DecodeArray ::
  "(Decoder \<Rightarrow> (Value \<times> Decoder) option) \<Rightarrow> string \<Rightarrow> nat \<Rightarrow> Decoder \<Rightarrow> Fields
     \<Rightarrow> bool \<times> Decoder \<times> Fields" where
  "DecodeArray rd name len d flds =
     (case read_array rd len d of
        None \<Rightarrow> (False, d, flds)
      | Some (vs, d') \<Rightarrow> (True, d', AddField name (ArrayValue vs) flds))"

definition DecodeUInteger :: "string \<Rightarrow> bool \<Rightarrow> Decoder \<Rightarrow> Fields \<Rightarrow> bool \<times> Decoder \<times> Fields" where
  "DecodeUInteger name is_64_bit d flds =
     (if is_64_bit then Decode DecodeULong name d flds else Decode DecodeUInt name d flds)"

text \<open>
  A function either returns or stops the program: \<^verbatim>\<open>DCHECK_EQ\<close> and \<^verbatim>\<open>DCHECK_LE\<close>
  come from \<^verbatim>\<open>base/logging.h\<close>, which is not among the sources. They are taken as a
  parameter: \<open>dchecks\<close> tells whether a failed check stops the program (a debug build)
  or is compiled out (a release build). A read of \<^verbatim>\<open>Lookup\<close> outside the buffer has
  no defined value in C++; it is an outcome of its own.
\<close>

datatype 'a outcome = Returned 'a | DCheckFailure | OutOfBoundsRead

definition kSID_REVISION :: "8 word" where "kSID_REVISION = 1"
definition kSID_MAX_SUB_AUTHORITIES :: "8 word" where "kSID_MAX_SUB_AUTHORITIES = 15"

text \<open>
  \<^verbatim>\<open>DecodeSID\<close>. The struct \<^verbatim>\<open>sid\<close> is a local: the caller's fields change only in the
  last line. \<^verbatim>\<open>4 * subAuthorityCount + 8\<close> is computed on \<^verbatim>\<open>int\<close> from a byte and does
  not overflow.
\<close>

definition DecodeSID ::
  "bool \<Rightarrow> string \<Rightarrow> bool \<Rightarrow> Decoder \<Rightarrow> Fields \<Rightarrow> (bool \<times> Decoder \<times> Fields) outcome" where
  "DecodeSID dchecks name is_64_bit d flds =
     (if RemainingBytes d < 3 * 8 then Returned (False, d, flds)
      else
        case DecodeUInteger ''PSid'' is_64_bit d [] of
          (False, d1, sid1) \<Rightarrow> Returned (False, d1, flds)
        | (True, d1, sid1) \<Rightarrow>
        case Decode DecodeUInt ''Attributes'' d1 sid1 of
          (False, d2, sid2) \<Rightarrow> Returned (False, d2, flds)
        | (True, d2, sid2) \<Rightarrow>
        case (if is_64_bit then map_option snd (DecodeUInt d2) else Some d2) of
          None \<Rightarrow> Returned (False, d2, flds)
        | Some d3 \<Rightarrow>
        case Lookup d3 0 of None \<Rightarrow> OutOfBoundsRead | Some revision \<Rightarrow>
        case Lookup d3 1 of None \<Rightarrow> OutOfBoundsRead | Some subAuthorityCount \<Rightarrow>
          if dchecks \<and> \<not> (revision = kSID_REVISION \<and> subAuthorityCount \<le> kSID_MAX_SUB_AUTHORITIES)
            then DCheckFailure
          else
            case DecodeArray DecodeUChar ''Sid'' (4 * unat subAuthorityCount + 8) d3 sid2 of
              (False, d4, sid3) \<Rightarrow> Returned (False, d4, flds)
            | (True, d4, sid3) \<Rightarrow> Returned (True, d4, AddField name (StructValue sid3) flds))"

section \<open>The kernel payload decoder (parser/etw/etw_raw_kernel_payload_decoder.cc)\<close>

text \<open>
  Modelled from the spec: \<^verbatim>\<open>etw_raw_kernel_payload_decoder.cc\<close> is not among the sources,
  only its unit tests are. The category of an event comes from its provider by a fixed
  table; the operation comes from the provider and the opcode; the layout comes from
  the provider, the opcode, the version and the bitness. The entry for the
  \<open>DebuggerEnabled\<close> event of the \<open>PerfInfo\<close> provider is written out: opcode 58,
  version 2, a layout without fields. \<open>other_entries\<close> stands for the rest of the
  dispatch table. The payload is a pointer, \<open>None\<close> when it is null, and a size; the
  cursor runs over the first \<open>size\<close> bytes behind the pointer.
\<close>

definition category_of_provider :: "string \<Rightarrow> string option" where
  "category_of_provider provider_id = map_of
     [ (''68FDD900-4A3E-11D1-84F4-0000F80464E3'', ''EventTraceEvent''),
       (''2CB15D1D-5FC1-11D2-ABE1-00A0C911F518'', ''Image''),
       (''CE1DBFB4-137E-4DA6-87B0-3F59AA102CBC'', ''PerfInfo''),
       (''3D6FA8D0-FE05-11D0-9DDA-00C04FD7BA7C'', ''Process''),
       (''3D6FA8D1-FE05-11D0-9DDA-00C04FD7BA7C'', ''Thread''),
       (''9A280AC0-C8E0-11D1-84E2-00C04FB998A2'', ''Tcplp''),
       (''AE53722E-C863-11D2-8659-00C04FA321A1'', ''Registry''),
       (''90CBDC39-4A3E-11D1-84F4-0000F80464E3'', ''FileIO''),
       (''3D6FA8D4-FE05-11D0-9DDA-00C04FD7BA7C'', ''DiskIO''),
       (''DEF2FE46-7BD6-4B80-BD94-F57FE20D0CE3'', ''StackWalk''),
       (''3D6FA8D3-FE05-11D0-9DDA-00C04FD7BA7C'', ''PageFault'') ] provider_id"

definition kPerfInfoProviderId :: string where
  "kPerfInfoProviderId = ''CE1DBFB4-137E-4DA6-87B0-3F59AA102CBC''"

definition kPerfInfoDebuggerEnabledOpcode :: "8 word" where
  "kPerfInfoDebuggerEnabledOpcode = 58"

definition make_decoder :: "8 word list option \<Rightarrow> nat \<Rightarrow> Decoder" where
  "make_decoder payload_ptr payload_size =
     \<lparr> buffer = (case payload_ptr of None \<Rightarrow> [] | Some bs \<Rightarrow> take payload_size bs),
       position = 0 \<rparr>"

text \<open>The layout of \<open>PerfInfo/DebuggerEnabled\<close>, version 2: no field is read.\<close>

definition DecodePerfInfoDebuggerEnabled :: "bool \<Rightarrow> Decoder \<Rightarrow> Fields \<Rightarrow> bool \<times> Decoder \<times> Fields" where
  "DecodePerfInfoDebuggerEnabled is_64_bit d flds = (True, d, flds)"

type_synonym decoded = "string \<times> string \<times> Value"

definition DecodeRawETWKernelPayload ::
  "(string \<Rightarrow> 8 word \<Rightarrow> 8 word \<Rightarrow> bool \<Rightarrow> Decoder \<Rightarrow> decoded option)
     \<Rightarrow> string \<Rightarrow> 8 word \<Rightarrow> 8 word \<Rightarrow> bool \<Rightarrow> 8 word list option \<Rightarrow> nat \<Rightarrow> decoded option" where
  "DecodeRawETWKernelPayload other_entries provider_id version opcode is_64_bit payload_ptr payload_size =
     (case category_of_provider provider_id of
        None \<Rightarrow> None
      | Some category \<Rightarrow>
          if provider_id = kPerfInfoProviderId \<and> opcode = kPerfInfoDebuggerEnabledOpcode then
            (if version = 2 then
               (case DecodePerfInfoDebuggerEnabled is_64_bit (make_decoder payload_ptr payload_size) [] of
                  (True, d, flds) \<Rightarrow> Some (''DebuggerEnabled'', category, StructValue flds)
                | (False, d, flds) \<Rightarrow> None)
             else None)
          else other_entries provider_id version opcode is_64_bit
                 (make_decoder payload_ptr payload_size))"

section \<open>The parser front-end (parser/etw/etw_parser.cc)\<close>

text \<open>
  \<^verbatim>\<open>ETWParser\<close>: the trace files to consume, the system timestamp and the raw timestamp
  kept for the conversion, and the period of the performance counter. The period is a
  \<^verbatim>\<open>double\<close>; its type is the parameter \<open>'d\<close>.
\<close>

record 'd ETWParser =
  traces :: "wstring list"
  first_event_system_ts :: "64 word"
  first_event_raw_ts :: "64 word"
  perf_period :: 'd

text \<open>The constructor; \<open>zero\<close> is the \<^verbatim>\<open>double\<close> 0.\<close>

definition new_parser :: "'d \<Rightarrow> 'd ETWParser" where
  "new_parser zero =
     \<lparr> traces = [], first_event_system_ts = 0, first_event_raw_ts = 0, perf_period = zero \<rparr>"

text \<open>Modelled from the spec: \<^verbatim>\<open>base::WStringEndsWith\<close> (base/string_utils.h, not among
  the sources) tells whether the string ends with the given suffix.\<close>

definition WStringEndsWith :: "wstring \<Rightarrow> wstring \<Rightarrow> bool" where
  "WStringEndsWith str ending = suffix ending str"

text \<open>The wide string literal \<^verbatim>\<open>L".etl"\<close>.\<close>

definition kEtlExtension :: wstring where
  "kEtlExtension = [0x2E, 0x65, 0x74, 0x6C]"

definition AddTraceFile :: "'d ETWParser \<Rightarrow> wstring \<Rightarrow> bool \<times> 'd ETWParser" where
  "AddTraceFile p path =
     (if traces p \<noteq> [] then (False, p)
      else if \<not> WStringEndsWith path kEtlExtension then (False, p)
      else (True, p\<lparr> traces := traces p @ [path] \<rparr>))"

text \<open>The calls of \<^verbatim>\<open>AddTraceFile\<close> in sequence, with the flag each one returns.\<close>

fun add_all :: "'d ETWParser \<Rightarrow> wstring list \<Rightarrow> bool list \<times> 'd ETWParser" where
  "add_all p [] = ([], p)"
| "add_all p (path # paths) =
     (let (ok, p') = AddTraceFile p path; (oks, p'') = add_all p' paths in (ok # oks, p''))"

text \<open>The fields of \<^verbatim>\<open>EVENT_RECORD\<close> that \<^verbatim>\<open>ProcessEvent\<close> reads.\<close>

record EVENT_RECORD =
  TimeStamp :: "64 word"
  ProviderId :: string
  Version :: "8 word"
  Opcode :: "8 word"
  Is64BitHeader :: bool
  UserData :: "8 word list option"
  UserDataLength :: nat
  ProcessId :: "32 word"
  ThreadId :: "32 word"
  ProcessorNumber :: "8 word"

text \<open>
  \<^verbatim>\<open>ProcessEvent\<close>, the callback the reader runs on each record. \<open>decode\<close> is
  \<^verbatim>\<open>DecodeRawETWPayload\<close>. \<open>to_ticks delta period\<close> is
  \<^verbatim>\<open>static_cast<uint64_t>(delta * period)\<close>, a product of doubles: a parameter. The
  difference \<^verbatim>\<open>raw_ts - first_event_raw_ts_\<close> is on unsigned 64-bit integers. The
  result is the parser and the event sent to the callback, \<open>None\<close> when the record is
  dropped.
\<close>

definition ProcessEvent ::
  "(string \<Rightarrow> 8 word \<Rightarrow> 8 word \<Rightarrow> bool \<Rightarrow> 8 word list option \<Rightarrow> nat \<Rightarrow> decoded option)
     \<Rightarrow> (64 word \<Rightarrow> 'd \<Rightarrow> 64 word) \<Rightarrow> 'd ETWParser \<Rightarrow> EVENT_RECORD
     \<Rightarrow> 'd ETWParser \<times> Event option" where
  "ProcessEvent decode to_ticks event_parser pevent =
     (let event_parser =
            (if first_event_raw_ts event_parser = 0
             then event_parser\<lparr> first_event_raw_ts := TimeStamp pevent \<rparr>
             else event_parser)
      in case decode (ProviderId pevent) (Version pevent) (Opcode pevent) (Is64BitHeader pevent)
                (UserData pevent) (UserDataLength pevent) of
           None \<Rightarrow> (event_parser, None)
         | Some (operation, category, decoded_payload) \<Rightarrow>
             let hdr = StructValue
                   [ (kOperationFieldName, StringValue operation),
                     (kCategoryFieldName, StringValue category),
                     (kProcessIdFieldName, ULongValue (ucast (ProcessId pevent))),
                     (kThreadIdFieldName, ULongValue (ucast (ThreadId pevent))),
                     (kProcessorNumberFieldName, UCharValue (ProcessorNumber pevent)) ];
                 raw_ts = TimeStamp pevent;
                 system_ts = first_event_system_ts event_parser
                   + to_ticks (raw_ts - first_event_raw_ts event_parser) (perf_period event_parser)
             in (event_parser,
                 Some \<lparr> ev_timestamp = system_ts, header = hdr, payload = decoded_payload \<rparr>))"

text \<open>The reader delivers the records of the trace in order; each goes through
  \<^verbatim>\<open>ProcessEvent\<close>. The events are listed in the order of the callbacks.\<close>

fun process_records ::
  "(string \<Rightarrow> 8 word \<Rightarrow> 8 word \<Rightarrow> bool \<Rightarrow> 8 word list option \<Rightarrow> nat \<Rightarrow> decoded option)
     \<Rightarrow> (64 word \<Rightarrow> 'd \<Rightarrow> 64 word) \<Rightarrow> 'd ETWParser \<Rightarrow> EVENT_RECORD list
     \<Rightarrow> 'd ETWParser \<times> Event list" where
  "process_records decode to_ticks p [] = (p, [])"
| "process_records decode to_ticks p (r # rs) =
     (case ProcessEvent decode to_ticks p r of
        (p', ev) \<Rightarrow>
          (case process_records decode to_ticks p' rs of
             (p'', evs) \<Rightarrow> (p'', (case ev of None \<Rightarrow> [] | Some e \<Rightarrow> [e]) @ evs)))"

section \<open>Test data (from the unit tests)\<close>

text \<open>A wide string literal: one code unit for each character.\<close>

definition wide :: "string \<Rightarrow> wstring" where
  "wide s = map (\<lambda>c. of_nat (of_char c)) s"

definition image_a :: Image where
  "image_a = \<lparr> img_size = 1000, img_checksum = 12, img_timestamp = 34,
               img_filename = wide ''image_a.dll'' \<rparr>"

definition image_b :: Image where
  "image_b = \<lparr> img_size = 2000, img_checksum = 56, img_timestamp = 78,
               img_filename = wide ''image_b.dll'' \<rparr>"

definition image_c :: Image where
  "image_c = \<lparr> img_size = 3000, img_checksum = 91, img_timestamp = 23,
               img_filename = wide ''image_c.dll'' \<rparr>"

text \<open>The resolver of \<^verbatim>\<open>TEST(SymbolsResolver, FindImage)\<close> after its three loads.\<close>

definition test_resolver :: SymbolsResolver where
  "test_resolver =
     LoadImage (LoadImage (LoadImage new_resolver 42 10000 image_a) 42 20000 image_b) 13 0 image_c"

text \<open>An image of 16 bytes whose last byte is the last byte of the address space.\<close>

definition top_image :: Image where
  "top_image = \<lparr> img_size = 16, img_checksum = 0, img_timestamp = 0,
                 img_filename = wide ''top.dll'' \<rparr>"

definition top_resolver :: SymbolsResolver where
  "top_resolver = LoadImage new_resolver 1 0xFFFFFFFFFFFFFFF0 top_image"

text \<open>Two loads in one process whose intervals overlap: \<open>[10000, 12000)\<close> and
  \<open>[10500, 11500)\<close>.\<close>

definition overlap_calls :: "call list" where
  "overlap_calls = [Load 42 10000 image_b, Load 42 10500 image_a]"

text \<open>A collaborator that reports two symbols for \<open>image_a\<close>, the later one first.\<close>

definition test_symbols :: "Image \<Rightarrow> Symbol list" where
  "test_symbols img =
     (if img = image_a then
        [ \<lparr> sym_name = wide ''g'', sym_offset = 100, sym_size = 50 \<rparr>,
          \<lparr> sym_name = wide ''f'', sym_offset = 0, sym_size = 100 \<rparr> ]
      else [])"

text \<open>The bytes of the SID in \<^verbatim>\<open>kProcessDCStartPayloadV3\<close> of the decoder's unit tests, from
  the pointer \<^verbatim>\<open>PSid\<close> to the end of the payload.\<close>

definition sid_payload :: "8 word list" where
  "sid_payload =
     [ 0x40, 0x56, 0x62, 0x2A, 0xA0, 0xF8, 0xFF, 0xFF,
       0x00, 0x00, 0x00, 0x00, 0x03, 0x00, 0xFF, 0xFF,
       0x01, 0x01, 0x00, 0x00, 0x00, 0x00, 0x00, 0x05,
       0x10, 0x00, 0x00, 0x00, 0x49, 0x64, 0x6C, 0x65,
       0x00, 0x00, 0x00 ]"

text \<open>Modelled from the spec: the integral kinds of a value.\<close>

fun integral :: "Value \<Rightarrow> bool" where
  "integral (CharValue v) = True"
| "integral (UCharValue v) = True"
| "integral (ShortValue v) = True"
| "integral (UShortValue v) = True"
| "integral (IntValue v) = True"
| "integral (UIntValue v) = True"
| "integral (LongValue v) = True"
| "integral (ULongValue v) = True"
| "integral _ = False"

text \<open>Events as the parser builds them: an \<open>Image/Load\<close> event with the fields of the
  \<open>Image/Unload\<close> version 2 test, and an \<open>Image/KernelBase\<close> event.\<close>

definition image_header :: "string \<Rightarrow> Value" where
  "image_header operation = StructValue
     [ (kOperationFieldName, StringValue operation),
       (kCategoryFieldName, StringValue ''Image''),
       (kProcessIdFieldName, ULongValue 5956),
       (kThreadIdFieldName, ULongValue 0),
       (kProcessorNumberFieldName, UCharValue 0) ]"

definition load_payload :: Value where
  "load_payload = StructValue
     [ (''BaseAddress'', ULongValue 0x7FEF7780000),
       (''ModuleSize'', ULongValue 0xE2000),
       (''ProcessId'', UIntValue 5956),
       (''ImageCheckSum'', UIntValue 948129),
       (''TimeDateStamp'', UIntValue 1247534846),
       (''ImageFileName'', WStringValue (wide ''fastprox.dll'')) ]"

definition load_event :: Event where
  "load_event = \<lparr> ev_timestamp = 0, header = image_header ''Load'', payload = load_payload \<rparr>"

definition kernel_base_event :: Event where
  "kernel_base_event = \<lparr> ev_timestamp = 0, header = image_header ''KernelBase'',
      payload = StructValue [(''BaseAddress'', ULongValue 0x7FEF7780000)] \<rparr>"

definition test_state :: CurrentState where
  "test_state = \<lparr> symbols = test_resolver \<rparr>"

text \<open>Two paths, three records whose first raw timestamp is 0, and stand-ins for the
  rest of the dispatch table (empty) and for the product of doubles (a product of
  integers), used in the examples only.\<close>

definition etl_path :: wstring where "etl_path = wide ''C:/traces/boot.etl''"
definition txt_path :: wstring where "txt_path = wide ''C:/traces/boot.txt''"

definition test_record :: "64 word \<Rightarrow> EVENT_RECORD" where
  "test_record ts = \<lparr> TimeStamp = ts, ProviderId = kPerfInfoProviderId, Version = 2,
      Opcode = kPerfInfoDebuggerEnabledOpcode, Is64BitHeader = True, UserData = None,
      UserDataLength = 0, ProcessId = 4, ThreadId = 8, ProcessorNumber = 0 \<rparr>"

text \<open>A parser as \<^verbatim>\<open>Parse\<close> sets it up: start time 1000 and a period that stands for two
  ticks per raw tick.\<close>

definition started_parser :: "64 word ETWParser" where
  "started_parser = (new_parser 0)\<lparr> first_event_system_ts := 1000, perf_period := 2 \<rparr>"

definition no_other_entries ::
  "string \<Rightarrow> 8 word \<Rightarrow> 8 word \<Rightarrow> bool \<Rightarrow> Decoder \<Rightarrow> decoded option" where
  "no_other_entries provider_id version opcode is_64_bit d = None"

definition test_records :: "EVENT_RECORD list" where
  "test_records = [test_record 0, test_record 500, test_record 700]"

definition scaled :: "64 word \<Rightarrow> 64 word \<Rightarrow> 64 word" where
  "scaled delta period = delta * period"


text \<open>A collaborator that reports one symbol for \<open>image_b\<close>, at offsets 1600 to 1800.\<close>

definition overlap_symbols :: "Image \<Rightarrow> Symbol list" where
  "overlap_symbols img =
     (if img = image_b then [ \<lparr> sym_name = wide ''h'', sym_offset = 1600, sym_size = 200 \<rparr> ]
      else [])"

section \<open>Properties of the ordered map\<close>

lemma upper_bound_le_length: "upper_bound key m \<le> length m"
  by (induction m) auto

lemma upper_bound_zero:
  "images_ok m \<Longrightarrow> upper_bound a m = 0 \<Longrightarrow> e \<in> set m \<Longrightarrow> a < fst e"
  by (induction m) (auto simp: images_ok_def split: if_splits)

lemma upper_bound_pred:
  "images_ok m \<Longrightarrow> upper_bound a m = Suc i \<Longrightarrow>
     i < length m \<and> fst (m ! i) \<le> a \<and> (\<forall>e\<in>set m. fst e \<le> a \<longrightarrow> fst e \<le> fst (m ! i))"
proof (induction m arbitrary: i)
  case Nil
  then show ?case by simp
next
  case (Cons x m)
  from Cons.prems have le: "fst x \<le> a" by (auto split: if_splits)
  from Cons.prems have ok: "images_ok m" and lt: "\<forall>e\<in>set m. fst x < fst e"
    by (auto simp: images_ok_def)
  from Cons.prems have ub: "upper_bound a m = i" by (auto split: if_splits)
  show ?case
  proof (cases i)
    case 0
    with ub ok have "\<forall>e\<in>set m. a < fst e" using upper_bound_zero by blast
    with 0 le show ?thesis by auto
  next
    case (Suc j)
    with Cons.IH[OF ok] ub have
      "j < length m \<and> fst (m ! j) \<le> a \<and> (\<forall>e\<in>set m. fst e \<le> a \<longrightarrow> fst e \<le> fst (m ! j))"
      by simp
    moreover from this lt have "fst x \<le> fst (m ! j)" using nth_mem by fastforce
    ultimately show ?thesis using Suc by auto
  qed
qed

lemma images_ok_unique:
  "images_ok m \<Longrightarrow> e \<in> set m \<Longrightarrow> e' \<in> set m \<Longrightarrow> fst e = fst e' \<Longrightarrow> e = e'"
  by (induction m) (auto simp: images_ok_def)

lemma entries_ok: "resolver_ok st \<Longrightarrow> images_ok (entries st pid)"
  by (auto simp: resolver_ok_def entries_def images_ok_def split: option.splits)

section \<open>Interval lookup\<close>

text \<open>
  On a well-formed resolver \<^verbatim>\<open>FindImage\<close> returns the entry \<open>(B, I)\<close> exactly when it is
  the entry of the process with the greatest base not above the address and the address
  is below \<open>B + size\<close>, the sum taken on 64 bits.
\<close>

lemma FindImage_Some_iff:
  assumes "resolver_ok st"
  shows "FindImage st pid a = Some (B, I) \<longleftrightarrow>
     (B, I) \<in> set (entries st pid) \<and> B \<le> a \<and>
     (\<forall>e\<in>set (entries st pid). fst e \<le> a \<longrightarrow> fst e \<le> B) \<and> a < B + img_size I"
proof (cases "pid_to_images st pid")
  case None
  then show ?thesis by (simp add: FindImage_def entries_def)
next
  case (Some m)
  with assms have ok: "images_ok m" by (auto simp: resolver_ok_def)
  have en: "entries st pid = m" using Some by (simp add: entries_def)
  show ?thesis
  proof (cases "upper_bound a m")
    case 0
    then have "\<forall>e\<in>set m. a < fst e" using ok upper_bound_zero by blast
    then have "\<not> ((B, I) \<in> set m \<and> B \<le> a)" by fastforce
    with 0 Some en show ?thesis by (auto simp: FindImage_def)
  next
    case (Suc i)
    from upper_bound_pred[OF ok Suc] have i: "i < length m" and le: "fst (m ! i) \<le> a"
      and mx: "\<forall>e\<in>set m. fst e \<le> a \<longrightarrow> fst e \<le> fst (m ! i)" by auto
    have mem: "m ! i \<in> set m" using i by simp
    have ne: "m \<noteq> []" using i by auto
    have F: "FindImage st pid a =
        (if a \<ge> fst (m ! i) + img_size (snd (m ! i)) then None else Some (m ! i))"
      using Some Suc i ne by (simp add: FindImage_def Let_def)
    show ?thesis
    proof
      assume "FindImage st pid a = Some (B, I)"
      with F have eq: "m ! i = (B, I)" and "\<not> a \<ge> fst (m ! i) + img_size (snd (m ! i))"
        by (auto split: if_splits)
      then show "(B, I) \<in> set (entries st pid) \<and> B \<le> a \<and>
         (\<forall>e\<in>set (entries st pid). fst e \<le> a \<longrightarrow> fst e \<le> B) \<and> a < B + img_size I"
        using mem le mx en by auto
    next
      assume R: "(B, I) \<in> set (entries st pid) \<and> B \<le> a \<and>
         (\<forall>e\<in>set (entries st pid). fst e \<le> a \<longrightarrow> fst e \<le> B) \<and> a < B + img_size I"
      then have "fst (m ! i) \<le> B" using mem le en by auto
      moreover have "B \<le> fst (m ! i)" using R mx en by auto
      ultimately have "fst (m ! i) = fst (B, I)" by simp
      then have "m ! i = (B, I)" using images_ok_unique[OF ok mem] R en by blast
      with F R show "FindImage st pid a = Some (B, I)" by auto
    qed
  qed
qed


subsection \<open>Sums that do not wrap\<close>

lemma no_wrap_add:
  fixes B s :: "64 word"
  assumes "unat B + unat s < 2 ^ 64"
  shows "unat (B + s) = unat B + unat s"
  using assms unat_add_lem[of B s] by simp





lemma no_wrap_less_iff:
  fixes a B s :: "64 word"
  assumes "unat B + unat s < 2 ^ 64"
  shows "a < B + s \<longleftrightarrow> unat a < unat B + unat s"
  using no_wrap_add[OF assms] by (simp add: word_less_nat_alt)

lemma no_wrap_le_iff:
  fixes a B s :: "64 word"
  assumes "unat B + unat s < 2 ^ 64"
  shows "a \<le> B + s \<longleftrightarrow> unat a \<le> unat B + unat s"
  using no_wrap_add[OF assms] by (simp add: word_le_nat_alt)

subsection \<open>Claim C1\<close>



lemma test_resolver_ok: "resolver_ok test_resolver"
  by (auto simp: resolver_ok_def test_resolver_def LoadImage_def new_resolver_def images_ok_def
      split: if_splits)

lemma test_resolver_entries:
  "entries test_resolver 42 = [(10000, image_a), (20000, image_b)]"
  by (simp add: entries_def test_resolver_def LoadImage_def new_resolver_def)


text \<open>
  Where \<open>B + size\<close> exceeds \<open>2 ^ 64 - 1\<close> the sum \<^verbatim>\<open>image_it->first + image_it->second.size\<close>
  of the code wraps, and the comparison is with the wrapped value. The comment of
  \<^verbatim>\<open>FindImage\<close> in the header says that it returns the image to which the address
  belongs; at this input it does not: the image of 16 bytes loaded at \<open>2 ^ 64 - 16\<close> is
  not found at its own base.
\<close>

lemma FindImage_top_of_address_space:
  "(0xFFFFFFFFFFFFFFF0, top_image) \<in> set (entries top_resolver 1)
   \<and> 0 < img_size top_image
   \<and> unat (0xFFFFFFFFFFFFFFF0 :: Address) < unat (0xFFFFFFFFFFFFFFF0 :: Address) + unat (img_size top_image)
   \<and> FindImage top_resolver 1 0xFFFFFFFFFFFFFFF0 = None"
  by (simp add: entries_def top_resolver_def LoadImage_def new_resolver_def FindImage_def
      top_image_def)

section \<open>Sequences of loads and unloads\<close>

lemma images_ok_Cons: "images_ok (e # m) \<longleftrightarrow> (\<forall>x\<in>set m. fst e < fst x) \<and> images_ok m"
  by (auto simp: images_ok_def)

lemma images_ok_Nil: "images_ok []"
  by (simp add: images_ok_def)

lemma set_map_assign: "set (map_assign k v m) \<subseteq> insert (k, v) (set m)"
  by (induction m) auto

lemma images_ok_map_assign: "images_ok m \<Longrightarrow> images_ok (map_assign k v m)"
proof (induction m)
  case Nil
  then show ?case by (simp add: images_ok_def)
next
  case (Cons e m)
  then have ok: "images_ok (map_assign k v m)" by (simp add: images_ok_Cons)
  show ?case
  proof (cases "fst e = k")
    case True
    with Cons.prems show ?thesis by (simp add: images_ok_Cons)
  next
    case False
    show ?thesis
    proof (cases "k < fst e")
      case True
      with Cons.prems False show ?thesis by (fastforce simp: images_ok_Cons)
    next
      case ge: False
      with False have "fst e < k" by simp
      then have "\<forall>x\<in>set (map_assign k v m). fst e < fst x"
        using set_map_assign[of k v m] Cons.prems by (fastforce simp: images_ok_Cons)
      with ok False ge show ?thesis by (simp add: images_ok_Cons)
    qed
  qed
qed

lemma set_map_erase: "set (map_erase k m) \<subseteq> set m"
  by (induction m) auto

lemma images_ok_map_erase: "images_ok m \<Longrightarrow> images_ok (map_erase k m)"
proof (induction m)
  case Nil
  then show ?case by simp
next
  case (Cons e m)
  then have ok: "images_ok (map_erase k m)" by (simp add: images_ok_Cons)
  from Cons.prems have "\<forall>x\<in>set (map_erase k m). fst e < fst x"
    using set_map_erase[of k m] by (auto simp: images_ok_Cons)
  with ok Cons.prems show ?case by (simp add: images_ok_Cons)
qed

lemma map_of_map_assign: "map_of (map_assign k v m) = (map_of m)(k \<mapsto> v)"
  by (induction m) (auto simp: fun_eq_iff)

lemma map_of_fresh: "\<forall>x\<in>set m. k < fst x \<Longrightarrow> map_of m (k::Address) = None"
  by (induction m) auto

lemma map_of_map_erase:
  "images_ok m \<Longrightarrow> map_of (map_erase k m) x = (if x = k then None else map_of m x)"
proof (induction m)
  case Nil
  then show ?case by simp
next
  case (Cons e m)
  then have IH: "map_of (map_erase k m) x = (if x = k then None else map_of m x)"
    by (simp add: images_ok_Cons)
  show ?case
  proof (cases "fst e = k")
    case True
    with Cons.prems have "map_of m k = None" by (auto simp: images_ok_Cons intro: map_of_fresh)
    with True show ?thesis by (cases e) auto
  next
    case False
    with IH show ?thesis by (cases e) auto
  qed
qed

lemma images_ok_mem_iff: "images_ok m \<Longrightarrow> (B, I) \<in> set m \<longleftrightarrow> map_of m B = Some I"
proof (induction m)
  case Nil
  then show ?case by simp
next
  case (Cons e m)
  then have IH: "(B, I) \<in> set m \<longleftrightarrow> map_of m B = Some I" by (simp add: images_ok_Cons)
  show ?case
  proof (cases "fst e = B")
    case True
    with Cons.prems have "map_of m B = None" by (auto simp: images_ok_Cons intro: map_of_fresh)
    with True IH show ?thesis by (cases e) auto
  next
    case False
    with IH show ?thesis by (cases e) auto
  qed
qed

lemma resolver_ok_new: "resolver_ok new_resolver"
  by (simp add: resolver_ok_def new_resolver_def)

lemma resolver_ok_LoadImage: "resolver_ok st \<Longrightarrow> resolver_ok (LoadImage st pid b i)"
  by (auto simp: resolver_ok_def LoadImage_def images_ok_map_assign images_ok_Nil
      split: option.splits if_splits)

lemma resolver_ok_UnloadImage: "resolver_ok st \<Longrightarrow> resolver_ok (UnloadImage st pid b)"
  by (auto simp: resolver_ok_def UnloadImage_def images_ok_map_erase split: option.splits if_splits)

lemma resolver_ok_apply_call: "resolver_ok st \<Longrightarrow> resolver_ok (apply_call st c)"
  by (cases c) (simp_all add: resolver_ok_LoadImage resolver_ok_UnloadImage)

lemma resolver_ok_foldl: "resolver_ok st \<Longrightarrow> resolver_ok (foldl apply_call st cs)"
  by (induction cs arbitrary: st) (simp_all add: resolver_ok_apply_call)

lemma resolver_ok_run_calls: "resolver_ok (run_calls cs)"
  by (simp add: run_calls_def resolver_ok_foldl resolver_ok_new)

lemma entries_LoadImage:
  "map_of (entries (LoadImage st p b i) pid) B =
     (if p = pid \<and> b = B then Some i else map_of (entries st pid) B)"
  by (auto simp: entries_def LoadImage_def map_of_map_assign split: option.splits)

lemma entries_UnloadImage:
  "resolver_ok st \<Longrightarrow> map_of (entries (UnloadImage st p b) pid) B =
     (if p = pid \<and> b = B then None else map_of (entries st pid) B)"
  by (auto simp: entries_def UnloadImage_def resolver_ok_def map_of_map_erase split: option.splits)

lemma live_snoc:
  "live (cs @ [c]) pid B =
     (if touches c pid B then (case c of Load p b i \<Rightarrow> Some i | Unload p b \<Rightarrow> None)
      else live cs pid B)"
  by (cases "filter (\<lambda>c. touches c pid B) cs") (auto simp: live_def split: list.splits)

lemma entries_run_calls: "map_of (entries (run_calls cs) pid) B = live cs pid B"
proof (induction cs rule: rev_induct)
  case Nil
  then show ?case by (simp add: run_calls_def new_resolver_def entries_def live_def)
next
  case (snoc c cs)
  have ok: "resolver_ok (run_calls cs)" by (rule resolver_ok_run_calls)
  have step: "run_calls (cs @ [c]) = apply_call (run_calls cs) c" by (simp add: run_calls_def)
  show ?case
  proof (cases c)
    case (Load p b i)
    then show ?thesis using snoc step by (auto simp: entries_LoadImage live_snoc)
  next
    case (Unload p b)
    then show ?thesis using snoc step ok by (auto simp: entries_UnloadImage live_snoc)
  qed
qed

lemma entries_live_iff: "(B, I) \<in> set (entries (run_calls cs) pid) \<longleftrightarrow> live cs pid B = Some I"
  using images_ok_mem_iff[OF entries_ok[OF resolver_ok_run_calls], of B I cs pid]
  by (simp add: entries_run_calls)

subsection \<open>Claim C3\<close>

text \<open>
  C3, as stated, includes sequences that create overlapping intervals in one pid. It
  fails there: after a load of 2000 bytes at 10000 and a load of 1000 bytes at 10500,
  the address 11700 lies in the live entry at 10000, but the lookup examines only the
  entry at 10500, the greatest base not above the address, and returns nothing.
\<close>

theorem FindImage_live_counterexample:
  "live overlap_calls 42 10000 = Some image_b
   \<and> (10000 :: Address) \<le> 11700 \<and> (11700 :: Address) < 10000 + img_size image_b
   \<and> FindImage (run_calls overlap_calls) 42 11700 = None"
  by (simp add: overlap_calls_def live_def run_calls_def LoadImage_def new_resolver_def
      FindImage_def image_a_def image_b_def)

text \<open>
  C3, amended: for all sequences of \<^verbatim>\<open>load_image\<close> / \<^verbatim>\<open>unload_image\<close> calls, those that
  create overlapping intervals within one pid included, and for every pid and address
  \<open>a\<close>: \<^verbatim>\<open>find_image(pid, a)\<close> returns an image iff some currently-live entry at base
  \<open>B\<close> satisfies \<open>B \<le> a < B + size\<close> and no currently-live entry of the pid has a base
  in \<open>(B, a]\<close>; it returns that entry. This is stated for the addresses at which the
  live entry of the pid with the greatest base not above \<open>a\<close> has a \<open>B + size\<close> that
  does not exceed \<open>2 ^ 64 - 1\<close>; nothing is said of the others.
\<close>

theorem FindImage_live_iff:
  assumes "\<forall>B I. live cs pid B = Some I \<and> B \<le> a
             \<and> (\<forall>B' I'. live cs pid B' = Some I' \<and> B' \<le> a \<longrightarrow> B' \<le> B)
             \<longrightarrow> unat B + unat (img_size I) < 2 ^ 64"
  shows "(FindImage (run_calls cs) pid a = Some (B, I) \<longleftrightarrow>
            live cs pid B = Some I \<and> B \<le> a \<and> unat a < unat B + unat (img_size I)
            \<and> (\<forall>B' I'. live cs pid B' = Some I' \<and> B' \<le> a \<longrightarrow> B' \<le> B))
       \<and> ((\<exists>e. FindImage (run_calls cs) pid a = Some e) \<longleftrightarrow>
            (\<exists>B I. live cs pid B = Some I \<and> B \<le> a \<and> unat a < unat B + unat (img_size I)
               \<and> (\<forall>B' I'. live cs pid B' = Some I' \<and> B' \<le> a \<longrightarrow> B' \<le> B)))"
proof -
  have gr: "(\<forall>e\<in>set (entries (run_calls cs) pid). fst e \<le> a \<longrightarrow> fst e \<le> B) \<longleftrightarrow>
      (\<forall>B' I'. live cs pid B' = Some I' \<and> B' \<le> a \<longrightarrow> B' \<le> B)" for B
  proof
    assume l: "\<forall>e\<in>set (entries (run_calls cs) pid). fst e \<le> a \<longrightarrow> fst e \<le> B"
    show "\<forall>B' I'. live cs pid B' = Some I' \<and> B' \<le> a \<longrightarrow> B' \<le> B"
    proof (intro allI impI)
      fix B' I'
      assume h: "live cs pid B' = Some I' \<and> B' \<le> a"
      then have "(B', I') \<in> set (entries (run_calls cs) pid)" by (simp add: entries_live_iff)
      with l h show "B' \<le> B" by fastforce
    qed
  next
    assume r: "\<forall>B' I'. live cs pid B' = Some I' \<and> B' \<le> a \<longrightarrow> B' \<le> B"
    show "\<forall>e\<in>set (entries (run_calls cs) pid). fst e \<le> a \<longrightarrow> fst e \<le> B"
    proof (intro ballI impI)
      fix e
      assume e: "e \<in> set (entries (run_calls cs) pid)" and le: "fst e \<le> a"
      from e have "live cs pid (fst e) = Some (snd e)"
        using entries_live_iff[of "fst e" "snd e" cs pid] by simp
      with r le show "fst e \<le> B" by blast
    qed
  qed
  have main: "FindImage (run_calls cs) pid a = Some (B, I) \<longleftrightarrow>
            live cs pid B = Some I \<and> B \<le> a \<and> unat a < unat B + unat (img_size I)
            \<and> (\<forall>B' I'. live cs pid B' = Some I' \<and> B' \<le> a \<longrightarrow> B' \<le> B)" for B I
  proof (cases "live cs pid B = Some I \<and> B \<le> a
             \<and> (\<forall>B' I'. live cs pid B' = Some I' \<and> B' \<le> a \<longrightarrow> B' \<le> B)")
    case True
    with assms have "unat B + unat (img_size I) < 2 ^ 64" by blast
    then have "a < B + img_size I \<longleftrightarrow> unat a < unat B + unat (img_size I)"
      by (rule no_wrap_less_iff)
    with True show ?thesis
      by (simp add: FindImage_Some_iff[OF resolver_ok_run_calls] entries_live_iff gr)
  next
    case False
    then show ?thesis
      by (auto simp: FindImage_Some_iff[OF resolver_ok_run_calls] entries_live_iff gr)
  qed
  have "(\<exists>e. FindImage (run_calls cs) pid a = Some e) \<longleftrightarrow>
            (\<exists>B I. FindImage (run_calls cs) pid a = Some (B, I))" by auto
  with main show ?thesis by simp
qed

lemma overlap_calls_live:
  "live overlap_calls 42 B =
     (if B = 10000 then Some image_b else if B = 10500 then Some image_a else None)"
  by (simp add: overlap_calls_def live_def)

text \<open>After the two overlapping loads, both entries of process 42 are live. The address
  10700 lies in both; the lookup returns the one with the greater base. The address
  11700 lies in the entry at 10000 only; the entry at 10500 has a base in
  \<open>(10000, 11700]\<close>, and the lookup returns nothing.\<close>

theorem FindImage_live_iff_witness:
  "live overlap_calls 42 10000 = Some image_b \<and> live overlap_calls 42 10500 = Some image_a
   \<and> unat (10500 :: Address) + unat (img_size image_a) < 2 ^ 64
   \<and> FindImage (run_calls overlap_calls) 42 10700 = Some (10500, image_a)
   \<and> \<not> (\<exists>e. FindImage (run_calls overlap_calls) 42 11700 = Some e)"
proof -
  have l: "live overlap_calls 42 10000 = Some image_b" "live overlap_calls 42 10500 = Some image_a"
    by (simp_all add: overlap_calls_live)
  have n: "unat (10500 :: Address) + unat (img_size image_a) < 2 ^ 64"
    by (simp add: image_a_def)
  have h: "\<forall>B I. live overlap_calls 42 B = Some I \<and> B \<le> a
             \<and> (\<forall>B' I'. live overlap_calls 42 B' = Some I' \<and> B' \<le> a \<longrightarrow> B' \<le> B)
             \<longrightarrow> unat B + unat (img_size I) < 2 ^ 64" for a
    by (auto simp: overlap_calls_live image_a_def image_b_def split: if_splits)
  have a: "live overlap_calls 42 10500 = Some image_a \<and> (10500 :: Address) \<le> 10700
      \<and> unat (10700 :: Address) < unat (10500 :: Address) + unat (img_size image_a)
      \<and> (\<forall>B' I'. live overlap_calls 42 B' = Some I' \<and> B' \<le> 10700 \<longrightarrow> B' \<le> 10500)"
    by (auto simp: overlap_calls_live image_a_def split: if_splits)
  have b: "\<not> (\<exists>B I. live overlap_calls 42 B = Some I \<and> B \<le> 11700
      \<and> unat (11700 :: Address) < unat B + unat (img_size I)
      \<and> (\<forall>B' I'. live overlap_calls 42 B' = Some I' \<and> B' \<le> 11700 \<longrightarrow> B' \<le> B))"
  proof
    assume "\<exists>B I. live overlap_calls 42 B = Some I \<and> B \<le> 11700
      \<and> unat (11700 :: Address) < unat B + unat (img_size I)
      \<and> (\<forall>B' I'. live overlap_calls 42 B' = Some I' \<and> B' \<le> 11700 \<longrightarrow> B' \<le> B)"
    then obtain B I where x: "live overlap_calls 42 B = Some I"
      "unat (11700 :: Address) < unat B + unat (img_size I)"
      "\<forall>B' I'. live overlap_calls 42 B' = Some I' \<and> B' \<le> 11700 \<longrightarrow> B' \<le> B" by blast
    from x(3) l(2) have "(10500 :: Address) \<le> B" by simp
    with x(1) have "B = 10500 \<and> I = image_a"
      by (auto simp: overlap_calls_live split: if_splits)
    with x(2) show False by (simp add: image_a_def)
  qed
  from FindImage_live_iff[OF h, of 10700 10500 image_a] a
  have 1: "FindImage (run_calls overlap_calls) 42 10700 = Some (10500, image_a)" by blast
  from FindImage_live_iff[OF h, of 11700] b
  have 2: "\<not> (\<exists>e. FindImage (run_calls overlap_calls) 42 11700 = Some e)" by blast
  from l n 1 2 show ?thesis by blast
qed

section \<open>Symbol resolution\<close>

lemma std_upper_bound_le: "std_upper_bound cmp v t \<le> length t"
  by (induction t) auto

lemma std_upper_bound_before:
  "j < std_upper_bound cmp v t \<Longrightarrow> \<not> cmp v (t ! j)"
proof (induction t arbitrary: j)
  case Nil
  then show ?case by simp
next
  case (Cons x t)
  then show ?case by (cases j) (auto split: if_splits)
qed

lemma std_upper_bound_after:
  "sorted (map sym_offset t) \<Longrightarrow> std_upper_bound SymbolOffsetComparison off t \<le> j
     \<Longrightarrow> j < length t \<Longrightarrow> off < sym_offset (t ! j)"
proof (induction t arbitrary: j)
  case Nil
  then show ?case by simp
next
  case (Cons x t)
  show ?case
  proof (cases "off < sym_offset x")
    case True
    have "sym_offset x \<le> sym_offset ((x # t) ! j)"
      using Cons.prems(1,3) by (cases j) auto
    with True show ?thesis by simp
  next
    case False
    with Cons.prems obtain j' where j: "j = Suc j'"
      by (cases j) (auto simp: SymbolOffsetComparison_def)
    with Cons False show ?thesis by (auto simp: SymbolOffsetComparison_def)
  qed
qed

lemma selected_index:
  assumes s: "sorted (map sym_offset t)"
    and i: "i < length t" and le: "sym_offset (t ! i) \<le> off"
    and gt: "\<forall>j<length t. i < j \<longrightarrow> off < sym_offset (t ! j)"
  shows "std_upper_bound SymbolOffsetComparison off t = Suc i"
proof -
  let ?k = "std_upper_bound SymbolOffsetComparison off t"
  have "\<not> ?k \<le> i" using std_upper_bound_after[OF s _ i, of off] le by auto
  moreover have "\<not> Suc i < ?k"
  proof
    assume a: "Suc i < ?k"
    then have "\<not> SymbolOffsetComparison off (t ! Suc i)" by (rule std_upper_bound_before)
    moreover have "Suc i < length t" using a std_upper_bound_le[of SymbolOffsetComparison off t] by simp
    ultimately show False using gt by (auto simp: SymbolOffsetComparison_def)
  qed
  ultimately show ?thesis by simp
qed

lemma GetImageSymbols_sorted:
  "cache_ok st \<Longrightarrow> sorted (map sym_offset (fst (GetImageSymbols enum_symbols st img)))"
  by (auto simp: GetImageSymbols_def cache_ok_def Let_def split: option.splits)

lemma ResolveSymbol_unfold:
  assumes "FindImage st pid a = Some (B, I)"
  shows "fst (ResolveSymbol True enum_symbols st pid a) =
     (let t = fst (GetImageSymbols enum_symbols st I); off = a - B;
          it = std_upper_bound SymbolOffsetComparison off t
      in if it = 0 then None
         else if off > sym_offset (t ! (it - 1)) + sym_size (t ! (it - 1)) then None
         else Some (t ! (it - 1)))"
proof -
  obtain t st' where g: "GetImageSymbols enum_symbols st I = (t, st')" by (cases "GetImageSymbols enum_symbols st I")
  have "std_upper_bound SymbolOffsetComparison (a - B) t \<le> length t" by (rule std_upper_bound_le)
  then have "std_upper_bound SymbolOffsetComparison (a - B) t \<noteq> 0 \<Longrightarrow>
     std_upper_bound SymbolOffsetComparison (a - B) t - 1 \<noteq> length t" by simp
  then show ?thesis using assms g by (auto simp: ResolveSymbol_def Let_def)
qed

lemma ResolveSymbol_without_dbghelp:
  "ResolveSymbol False enum_symbols st pid a = (None, st)"
  by (simp add: ResolveSymbol_def)

text \<open>The selection in the table of the image that \<^verbatim>\<open>FindImage\<close> returns, with the
  comparisons as the code makes them.\<close>

lemma ResolveSymbol_at_found_image:
  assumes "cache_ok st" and "FindImage st pid a = Some (B, I)"
    and "t = fst (GetImageSymbols enum_symbols st I)" and "off = a - B"
  shows "sorted (map sym_offset t)
     \<and> ((\<forall>S\<in>set t. off < sym_offset S) \<longrightarrow> fst (ResolveSymbol True enum_symbols st pid a) = None)
     \<and> (\<forall>i<length t. sym_offset (t ! i) \<le> off \<and> (\<forall>j<length t. i < j \<longrightarrow> off < sym_offset (t ! j)) \<longrightarrow>
          (\<forall>S\<in>set t. sym_offset S \<le> off \<longrightarrow> sym_offset S \<le> sym_offset (t ! i))
          \<and> fst (ResolveSymbol True enum_symbols st pid a) =
              (if off \<le> sym_offset (t ! i) + sym_size (t ! i) then Some (t ! i) else None)
          \<and> (off = sym_offset (t ! i) + sym_size (t ! i) \<longrightarrow>
               fst (ResolveSymbol True enum_symbols st pid a) = Some (t ! i)))
     \<and> ((\<forall>S\<in>set t. off < sym_offset S)
          \<or> (\<exists>i<length t. sym_offset (t ! i) \<le> off \<and> (\<forall>j<length t. i < j \<longrightarrow> off < sym_offset (t ! j))))"
proof -
  have s: "sorted (map sym_offset t)" using assms(1,3) by (simp add: GetImageSymbols_sorted)
  let ?k = "std_upper_bound SymbolOffsetComparison off t"
  have R: "fst (ResolveSymbol True enum_symbols st pid a) =
      (if ?k = 0 then None
       else if off > sym_offset (t ! (?k - 1)) + sym_size (t ! (?k - 1)) then None
       else Some (t ! (?k - 1)))"
    using ResolveSymbol_unfold[OF assms(2), of enum_symbols] assms(3,4) by (simp add: Let_def)
  have none: "fst (ResolveSymbol True enum_symbols st pid a) = None" if a: "\<forall>S\<in>set t. off < sym_offset S"
  proof (cases ?k)
    case 0
    with R show ?thesis by simp
  next
    case (Suc n)
    then have "n < ?k" by simp
    then have "\<not> SymbolOffsetComparison off (t ! n)" by (rule std_upper_bound_before)
    moreover have "n < length t" using Suc std_upper_bound_le[of SymbolOffsetComparison off t] by simp
    ultimately show ?thesis using a by (auto simp: SymbolOffsetComparison_def)
  qed
  have sel: "(\<forall>S\<in>set t. sym_offset S \<le> off \<longrightarrow> sym_offset S \<le> sym_offset (t ! i))
          \<and> fst (ResolveSymbol True enum_symbols st pid a) =
              (if off \<le> sym_offset (t ! i) + sym_size (t ! i) then Some (t ! i) else None)
          \<and> (off = sym_offset (t ! i) + sym_size (t ! i) \<longrightarrow>
               fst (ResolveSymbol True enum_symbols st pid a) = Some (t ! i))"
    if i: "i < length t" and le: "sym_offset (t ! i) \<le> off"
      and gt: "\<forall>j<length t. i < j \<longrightarrow> off < sym_offset (t ! j)" for i
  proof -
    have k: "?k = Suc i" using selected_index[OF s i le gt] .
    have mx: "sym_offset S \<le> sym_offset (t ! i)" if S: "S \<in> set t" and Sle: "sym_offset S \<le> off" for S
    proof -
      from S obtain j where j: "j < length t" "t ! j = S" by (auto simp: in_set_conv_nth)
      have "\<not> i < j" using gt j Sle by auto
      then have "j \<le> i" by simp
      then have "map sym_offset t ! j \<le> map sym_offset t ! i"
        using s i by (simp add: sorted_iff_nth_mono)
      then show ?thesis using i j by simp
    qed
    have r: "fst (ResolveSymbol True enum_symbols st pid a) =
              (if off \<le> sym_offset (t ! i) + sym_size (t ! i) then Some (t ! i) else None)"
      using R k by (auto simp: not_less)
    from mx r show ?thesis by auto
  qed
  have ex: "(\<forall>S\<in>set t. off < sym_offset S)
          \<or> (\<exists>i<length t. sym_offset (t ! i) \<le> off \<and> (\<forall>j<length t. i < j \<longrightarrow> off < sym_offset (t ! j)))"
  proof (cases ?k)
    case 0
    then have "\<forall>j<length t. off < sym_offset (t ! j)" using std_upper_bound_after[OF s, of off] by simp
    then show ?thesis by (auto simp: in_set_conv_nth)
  next
    case (Suc n)
    then have "n < ?k" by simp
    then have "\<not> SymbolOffsetComparison off (t ! n)" by (rule std_upper_bound_before)
    then have 1: "sym_offset (t ! n) \<le> off" by (simp add: SymbolOffsetComparison_def)
    have 2: "n < length t" using Suc std_upper_bound_le[of SymbolOffsetComparison off t] by simp
    have 3: "\<forall>j<length t. n < j \<longrightarrow> off < sym_offset (t ! j)"
      using std_upper_bound_after[OF s, of off] Suc by simp
    from 1 2 3 show ?thesis by blast
  qed
  from s none sel ex show ?thesis by blast
qed


subsection \<open>The cache invariant\<close>

lemma cache_ok_new: "cache_ok new_resolver"
  by (simp add: cache_ok_def new_resolver_def)

lemma cache_ok_LoadImage: "cache_ok st \<Longrightarrow> cache_ok (LoadImage st pid b i)"
  by (simp add: cache_ok_def LoadImage_def)

lemma cache_ok_UnloadImage: "cache_ok st \<Longrightarrow> cache_ok (UnloadImage st pid b)"
  by (simp add: cache_ok_def UnloadImage_def split: option.splits)

lemma cache_ok_GetImageSymbols:
  "cache_ok st \<Longrightarrow> cache_ok (snd (GetImageSymbols enum_symbols st img))"
  by (auto simp: cache_ok_def GetImageSymbols_def Let_def split: option.splits if_splits)

lemma cache_ok_ResolveSymbol:
  assumes "cache_ok st"
  shows "cache_ok (snd (ResolveSymbol use_dbghelp enum_symbols st pid a))"
proof (cases "FindImage st pid a")
  case None
  with assms show ?thesis by (simp add: ResolveSymbol_def)
next
  case (Some e)
  obtain B I where e: "e = (B, I)" by (cases e)
  obtain t st' where g: "GetImageSymbols enum_symbols st I = (t, st')"
    by (cases "GetImageSymbols enum_symbols st I")
  have "cache_ok st'" using cache_ok_GetImageSymbols[OF assms, of enum_symbols I] g by simp
  with assms Some e g show ?thesis by (simp add: ResolveSymbol_def Let_def)
qed

lemma images_ResolveSymbol:
  "pid_to_images (snd (ResolveSymbol use_dbghelp enum_symbols st pid a)) = pid_to_images st"
  by (auto simp: ResolveSymbol_def GetImageSymbols_def Let_def split: option.splits prod.splits)

lemma resolver_ok_ResolveSymbol:
  "resolver_ok st \<Longrightarrow> resolver_ok (snd (ResolveSymbol use_dbghelp enum_symbols st pid a))"
  by (simp add: resolver_ok_def images_ResolveSymbol)

lemma cache_ok_apply_call: "cache_ok st \<Longrightarrow> cache_ok (apply_call st c)"
  by (cases c) (simp_all add: cache_ok_LoadImage cache_ok_UnloadImage)

lemma cache_ok_foldl: "cache_ok st \<Longrightarrow> cache_ok (foldl apply_call st cs)"
  by (induction cs arbitrary: st) (simp_all add: cache_ok_apply_call)

lemma cache_ok_run_calls: "cache_ok (run_calls cs)"
  by (simp add: run_calls_def cache_ok_foldl cache_ok_new)

subsection \<open>Claim C2\<close>

text \<open>
  C2, as stated, is about every address \<open>a\<close> that an image with base \<open>B\<close> contains. It
  fails where images overlap: after a load of \<open>image_b\<close> (2000 bytes) at 10000 and a load
  of 1000 bytes at 10500 in process 42, the image at 10000 contains the address 11700,
  its table has the symbol \<open>h\<close> with \<open>h.offset = 1600 \<le> 1700 \<le> h.offset + h.size\<close>, yet
  \<^verbatim>\<open>ResolveSymbol\<close> fails: \<^verbatim>\<open>FindImage\<close> examines only the entry with the greatest base
  not above the address.
\<close>

theorem ResolveSymbol_overlap_counterexample:
  "(10000, image_b) \<in> set (entries (run_calls overlap_calls) 42)
   \<and> (10000 :: Address) \<le> 11700
   \<and> unat (11700 :: Address) < unat (10000 :: Address) + unat (img_size image_b)
   \<and> fst (GetImageSymbols overlap_symbols (run_calls overlap_calls) image_b) =
       [ \<lparr> sym_name = wide ''h'', sym_offset = 1600, sym_size = 200 \<rparr> ]
   \<and> (1600 :: Offset) \<le> 11700 - 10000
   \<and> unat (11700 - 10000 :: Offset) \<le> unat (1600 :: Offset) + unat (200 :: 64 word)
   \<and> fst (ResolveSymbol True overlap_symbols (run_calls overlap_calls) 42 11700) = None"
  by (simp add: entries_def overlap_calls_def run_calls_def LoadImage_def new_resolver_def
      FindImage_def ResolveSymbol_def GetImageSymbols_def overlap_symbols_def image_a_def
      image_b_def Let_def)

text \<open>
  C2, amended: in a build with \<^verbatim>\<open>USE_DBGHELP\<close>, for every pid and address \<open>a\<close> such that
  an image \<open>I\<close> with base \<open>B\<close> contains \<open>a\<close> (\<open>B \<le> a < B + size\<close>, with \<open>B + size\<close> not
  above \<open>2 ^ 64 - 1\<close>) and no other base of the pid lies in \<open>(B, a]\<close>:
  \<^verbatim>\<open>resolve_symbol(pid, a)\<close> works on the table \<open>t\<close> of the image, which is sorted by
  offset, with \<open>off = a - B\<close>. It fails if every symbol of the table has an offset above
  \<open>off\<close>. Otherwise the table has a last position \<open>i\<close> whose symbol \<open>S\<close> has
  \<open>S.offset \<le> off\<close>; \<open>S\<close> has the greatest offset among the symbols with offset at most
  \<open>off\<close>, and, when \<open>S.offset + S.size\<close> does not exceed \<open>2 ^ 64 - 1\<close>, the call succeeds
  with \<open>S\<close> iff \<open>off \<le> S.offset + S.size\<close>; at \<open>off = S.offset + S.size\<close> it still
  returns \<open>S\<close>. Nothing is said of a symbol whose \<open>S.offset + S.size\<close> exceeds
  \<open>2 ^ 64 - 1\<close>.
\<close>

theorem ResolveSymbol_selects:
  assumes "resolver_ok st" and "cache_ok st"
    and "(B, I) \<in> set (entries st pid)" and "B \<le> a"
    and "unat B + unat (img_size I) < 2 ^ 64" and "unat a < unat B + unat (img_size I)"
    and "\<forall>e\<in>set (entries st pid). fst e \<le> a \<longrightarrow> fst e \<le> B"
    and "t = fst (GetImageSymbols enum_symbols st I)" and "off = a - B"
  shows "sorted (map sym_offset t)
     \<and> ((\<forall>S\<in>set t. off < sym_offset S) \<longrightarrow> fst (ResolveSymbol True enum_symbols st pid a) = None)
     \<and> (\<forall>i<length t. sym_offset (t ! i) \<le> off \<and> (\<forall>j<length t. i < j \<longrightarrow> off < sym_offset (t ! j)) \<longrightarrow>
          (\<forall>S\<in>set t. sym_offset S \<le> off \<longrightarrow> sym_offset S \<le> sym_offset (t ! i))
          \<and> (unat (sym_offset (t ! i)) + unat (sym_size (t ! i)) < 2 ^ 64 \<longrightarrow>
               fst (ResolveSymbol True enum_symbols st pid a) =
                 (if unat off \<le> unat (sym_offset (t ! i)) + unat (sym_size (t ! i))
                  then Some (t ! i) else None)
               \<and> (off = sym_offset (t ! i) + sym_size (t ! i) \<longrightarrow>
                    fst (ResolveSymbol True enum_symbols st pid a) = Some (t ! i))))
     \<and> ((\<forall>S\<in>set t. off < sym_offset S)
          \<or> (\<exists>i<length t. sym_offset (t ! i) \<le> off \<and> (\<forall>j<length t. i < j \<longrightarrow> off < sym_offset (t ! j))))"
proof -
  have "a < B + img_size I" using assms(5,6) by (simp add: no_wrap_less_iff)
  then have f: "FindImage st pid a = Some (B, I)"
    using assms(3,4,7) by (simp add: FindImage_Some_iff[OF assms(1)])
  note r = ResolveSymbol_at_found_image[OF assms(2) f assms(8,9)]
  have sel: "(\<forall>S\<in>set t. sym_offset S \<le> off \<longrightarrow> sym_offset S \<le> sym_offset (t ! i))
          \<and> (unat (sym_offset (t ! i)) + unat (sym_size (t ! i)) < 2 ^ 64 \<longrightarrow>
               fst (ResolveSymbol True enum_symbols st pid a) =
                 (if unat off \<le> unat (sym_offset (t ! i)) + unat (sym_size (t ! i))
                  then Some (t ! i) else None)
               \<and> (off = sym_offset (t ! i) + sym_size (t ! i) \<longrightarrow>
                    fst (ResolveSymbol True enum_symbols st pid a) = Some (t ! i)))"
    if i: "i < length t" "sym_offset (t ! i) \<le> off"
      "\<forall>j<length t. i < j \<longrightarrow> off < sym_offset (t ! j)" for i
  proof -
    from r i have g: "\<forall>S\<in>set t. sym_offset S \<le> off \<longrightarrow> sym_offset S \<le> sym_offset (t ! i)"
      and e: "fst (ResolveSymbol True enum_symbols st pid a) =
              (if off \<le> sym_offset (t ! i) + sym_size (t ! i) then Some (t ! i) else None)"
      by blast+
    have "fst (ResolveSymbol True enum_symbols st pid a) =
                 (if unat off \<le> unat (sym_offset (t ! i)) + unat (sym_size (t ! i))
                  then Some (t ! i) else None)
               \<and> (off = sym_offset (t ! i) + sym_size (t ! i) \<longrightarrow>
                    fst (ResolveSymbol True enum_symbols st pid a) = Some (t ! i))"
      if w: "unat (sym_offset (t ! i)) + unat (sym_size (t ! i)) < 2 ^ 64"
      using e no_wrap_le_iff[OF w, of off] no_wrap_add[OF w] by auto
    with g show ?thesis by blast
  qed
  from r sel show ?thesis by blast
qed

text \<open>On the resolver of the unit test, with the two symbols \<open>f = [0, 100]\<close> and
  \<open>g = [100, 150]\<close> of \<open>image_a\<close>: the address \<open>10150\<close> is at offset
  \<open>150 = g.offset + g.size\<close> and resolves to \<open>g\<close>.\<close>

lemma test_resolver_cache: "symbol_cache test_resolver = Map.empty"
  by (simp add: test_resolver_def LoadImage_def new_resolver_def)

lemma test_symbols_table:
  "fst (GetImageSymbols test_symbols test_resolver image_a) =
     [ \<lparr> sym_name = wide ''f'', sym_offset = 0, sym_size = 100 \<rparr>,
       \<lparr> sym_name = wide ''g'', sym_offset = 100, sym_size = 50 \<rparr> ]"
  by (simp add: GetImageSymbols_def test_resolver_cache test_symbols_def Let_def)

theorem ResolveSymbol_selects_witness:
  "resolver_ok test_resolver \<and> cache_ok test_resolver
   \<and> (10000, image_a) \<in> set (entries test_resolver 42)
   \<and> (10000 :: Address) \<le> 10150
   \<and> unat (10150 :: Address) < unat (10000 :: Address) + unat (img_size image_a)
   \<and> fst (ResolveSymbol True test_symbols test_resolver 42 10150) =
       Some \<lparr> sym_name = wide ''g'', sym_offset = 100, sym_size = 50 \<rparr>"
proof -
  let ?t = "[ \<lparr> sym_name = wide ''f'', sym_offset = 0, sym_size = 100 \<rparr>,
              \<lparr> sym_name = wide ''g'', sym_offset = 100, sym_size = (50 :: 64 word) \<rparr> ]"
  have c: "cache_ok test_resolver" by (simp add: cache_ok_def test_resolver_cache)
  have e: "(10000, image_a) \<in> set (entries test_resolver 42)"
    by (simp add: test_resolver_entries)
  have b: "(10000 :: Address) \<le> 10150" by simp
  have n: "unat (10000 :: Address) + unat (img_size image_a) < 2 ^ 64"
    and m: "unat (10150 :: Address) < unat (10000 :: Address) + unat (img_size image_a)"
    by (simp_all add: image_a_def)
  have g: "\<forall>e\<in>set (entries test_resolver 42). fst e \<le> 10150 \<longrightarrow> fst e \<le> 10000"
    by (simp add: test_resolver_entries)
  have t: "?t = fst (GetImageSymbols test_symbols test_resolver image_a)"
    by (simp add: test_symbols_table)
  have o: "(150 :: Offset) = 10150 - 10000" by simp
  have i: "(1::nat) < length ?t \<and> sym_offset (?t ! 1) \<le> 150
      \<and> (\<forall>j<length ?t. 1 < j \<longrightarrow> 150 < sym_offset (?t ! j))
      \<and> unat (sym_offset (?t ! 1)) + unat (sym_size (?t ! 1)) < 2 ^ 64
      \<and> (150 :: Offset) = sym_offset (?t ! 1) + sym_size (?t ! 1)" by simp
  from ResolveSymbol_selects[OF test_resolver_ok c e b n m g t o] i
  have "fst (ResolveSymbol True test_symbols test_resolver 42 10150) = Some (?t ! 1)" by blast
  with test_resolver_ok c e b m show ?thesis by simp
qed

section \<open>The SID decoder\<close>

lemma le_word_single: "le_word [b] = (b :: 8 word)"
  by (simp add: le_word_def word_rcat_def)

lemma DecodeUChar_eq:
  "DecodeUChar d =
     (if position d < length (buffer d)
      then Some (UCharValue (buffer d ! position d), d\<lparr> position := Suc (position d) \<rparr>)
      else None)"
proof (cases "position d < length (buffer d)")
  case True
  then have "take 1 (drop (position d) (buffer d)) = [buffer d ! position d]"
    by (simp add: take_Suc_conv_app_nth)
  with True show ?thesis
    by (simp add: DecodeUChar_def read_bytes_def RemainingBytes_def le_word_single)
next
  case False
  then show ?thesis by (simp add: DecodeUChar_def read_bytes_def RemainingBytes_def)
qed

lemma read_array_UChar:
  "read_array DecodeUChar n d =
     (if RemainingBytes d < n then None
      else Some (map UCharValue (take n (drop (position d) (buffer d))),
                 d\<lparr> position := position d + n \<rparr>))"
proof (induction n arbitrary: d)
  case 0
  then show ?case by simp
next
  case (Suc n)
  show ?case
  proof (cases "position d < length (buffer d)")
    case False
    then have "DecodeUChar d = None" by (simp add: DecodeUChar_eq)
    with False show ?thesis by (simp add: RemainingBytes_def)
  next
    case True
    then have t: "take (Suc n) (drop (position d) (buffer d)) =
        buffer d ! position d # take n (drop (Suc (position d)) (buffer d))"
      by (simp add: Cons_nth_drop_Suc[symmetric])
    have r: "RemainingBytes (d\<lparr> position := Suc (position d) \<rparr>) < n \<longleftrightarrow> RemainingBytes d < Suc n"
      using True by (auto simp: RemainingBytes_def)
    have e: "DecodeUChar d =
        Some (UCharValue (buffer d ! position d), d\<lparr> position := Suc (position d) \<rparr>)"
      using True by (simp add: DecodeUChar_eq)
    show ?thesis using t r by (simp add: e Suc.IH)
  qed
qed

subsection \<open>Claim C4\<close>

text \<open>
  C4: for every cursor and bitness flag, \<^verbatim>\<open>DecodeSID\<close> returns false, with the cursor
  and the fields as they were, when fewer than \<open>3 * 8\<close> bytes remain. Otherwise it
  reads a pointer-width \<open>PSid\<close> (8 bytes on 64-bit, 4 on 32-bit), a 4-byte
  \<open>Attributes\<close>, 4 bytes of padding on 64-bit only, takes the byte at offset 1 of what
  follows as the count without advancing, and reads exactly \<open>4 * count + 8\<close> bytes as
  the array \<open>Sid\<close>: it succeeds with the cursor advanced by all of these and the struct
  of the three fields appended under the name, or returns false with the fields as they
  were when fewer than \<open>4 * count + 8\<close> bytes follow the header. The two peeks are
  inside the buffer. In a build whose DCHECKs stop the program, a revision other than 1
  or a count above 15 stops it before the array is read.
\<close>

theorem DecodeSID_layout:
  "(RemainingBytes d < 3 * 8 \<longrightarrow>
      DecodeSID dchecks name is_64_bit d flds = Returned (False, d, flds))
   \<and> (3 * 8 \<le> RemainingBytes d \<longrightarrow>
      DecodeSID dchecks name is_64_bit d flds =
        (let p = position d; buf = buffer d;
             ptr = (if is_64_bit then 8 else 4);
             padding = (if is_64_bit then 4 else 0);
             body = p + ptr + 4 + padding;
             revision = buf ! body;
             subAuthorityCount = buf ! (body + 1);
             len = 4 * unat subAuthorityCount + 8
         in if dchecks \<and> \<not> (revision = 1 \<and> subAuthorityCount \<le> 15) then DCheckFailure
            else if RemainingBytes d < ptr + 4 + padding + len
              then Returned (False, d\<lparr> position := body \<rparr>, flds)
            else Returned (True, d\<lparr> position := body + len \<rparr>,
                   flds @ [(name, StructValue
                     [ (''PSid'', if is_64_bit then ULongValue (le_word (take 8 (drop p buf)))
                                  else UIntValue (le_word (take 4 (drop p buf)))),
                       (''Attributes'', UIntValue (le_word (take 4 (drop (p + ptr) buf)))),
                       (''Sid'', ArrayValue (map UCharValue (take len (drop body buf)))) ])])))"
proof (intro conjI impI)
  assume "RemainingBytes d < 3 * 8"
  then show "DecodeSID dchecks name is_64_bit d flds = Returned (False, d, flds)"
    by (simp add: DecodeSID_def)
next
  assume "3 * 8 \<le> RemainingBytes d"
  then have r: "24 \<le> RemainingBytes d" by simp
  show "DecodeSID dchecks name is_64_bit d flds =
        (let p = position d; buf = buffer d;
             ptr = (if is_64_bit then 8 else 4);
             padding = (if is_64_bit then 4 else 0);
             body = p + ptr + 4 + padding;
             revision = buf ! body;
             subAuthorityCount = buf ! (body + 1);
             len = 4 * unat subAuthorityCount + 8
         in if dchecks \<and> \<not> (revision = 1 \<and> subAuthorityCount \<le> 15) then DCheckFailure
            else if RemainingBytes d < ptr + 4 + padding + len
              then Returned (False, d\<lparr> position := body \<rparr>, flds)
            else Returned (True, d\<lparr> position := body + len \<rparr>,
                   flds @ [(name, StructValue
                     [ (''PSid'', if is_64_bit then ULongValue (le_word (take 8 (drop p buf)))
                                  else UIntValue (le_word (take 4 (drop p buf)))),
                       (''Attributes'', UIntValue (le_word (take 4 (drop (p + ptr) buf)))),
                       (''Sid'', ArrayValue (map UCharValue (take len (drop body buf)))) ])]))"
    using r
    by (cases is_64_bit)
      (auto simp: DecodeSID_def DecodeUInteger_def Decode_def DecodeULong_def DecodeUInt_def
        DecodeArray_def read_array_UChar read_bytes_def RemainingBytes_def Lookup_def AddField_def
        kSID_REVISION_def kSID_MAX_SUB_AUTHORITIES_def Let_def add.commute)
qed

text \<open>The SID of the \<open>Process/DCStart\<close> version 3 test, on 64 bits: 28 bytes are
  read, with one sub-authority and an array of 12 bytes.\<close>

theorem DecodeSID_layout_witness:
  "3 * 8 \<le> RemainingBytes \<lparr> buffer = sid_payload, position = 0 \<rparr>
   \<and> DecodeSID True ''UserSID'' True \<lparr> buffer = sid_payload, position = 0 \<rparr> [] =
       Returned (True, \<lparr> buffer = sid_payload, position = 28 \<rparr>,
         [(''UserSID'', StructValue
            [ (''PSid'', ULongValue 18446735965522384448),
              (''Attributes'', UIntValue 0),
              (''Sid'', ArrayValue (map UCharValue [1, 1, 0, 0, 0, 0, 0, 5, 16, 0, 0, 0])) ])])"
proof -
  have r: "3 * 8 \<le> RemainingBytes \<lparr> buffer = sid_payload, position = 0 \<rparr>"
    by (simp add: RemainingBytes_def sid_payload_def)
  from DecodeSID_layout[of "\<lparr> buffer = sid_payload, position = 0 \<rparr>" True "''UserSID''" True "[]"] r
  have "DecodeSID True ''UserSID'' True \<lparr> buffer = sid_payload, position = 0 \<rparr> [] =
        (let p = position \<lparr> buffer = sid_payload, position = 0 \<rparr>;
             buf = buffer \<lparr> buffer = sid_payload, position = 0 \<rparr>;
             ptr = (if True then 8 else 4);
             padding = (if True then 4 else 0);
             body = p + ptr + 4 + padding;
             revision = buf ! body;
             subAuthorityCount = buf ! (body + 1);
             len = 4 * unat subAuthorityCount + 8
         in if True \<and> \<not> (revision = 1 \<and> subAuthorityCount \<le> 15) then DCheckFailure
            else if RemainingBytes \<lparr> buffer = sid_payload, position = 0 \<rparr> < ptr + 4 + padding + len
              then Returned (False, \<lparr> buffer = sid_payload, position = 0 \<rparr>\<lparr> position := body \<rparr>, [])
            else Returned (True, \<lparr> buffer = sid_payload, position = 0 \<rparr>\<lparr> position := body + len \<rparr>,
                   [] @ [(''UserSID'', StructValue
                     [ (''PSid'', if True then ULongValue (le_word (take 8 (drop p buf)))
                                  else UIntValue (le_word (take 4 (drop p buf)))),
                       (''Attributes'', UIntValue (le_word (take 4 (drop (p + ptr) buf)))),
                       (''Sid'', ArrayValue (map UCharValue (take len (drop body buf)))) ])]))"
    by blast
  also have "\<dots> = Returned (True, \<lparr> buffer = sid_payload, position = 28 \<rparr>,
         [(''UserSID'', StructValue
            [ (''PSid'', ULongValue 18446735965522384448),
              (''Attributes'', UIntValue 0),
              (''Sid'', ArrayValue (map UCharValue [1, 1, 0, 0, 0, 0, 0, 5, 16, 0, 0, 0])) ])])"
    by (simp add: Let_def RemainingBytes_def sid_payload_def le_word_def word_rcat_def)
  finally show ?thesis using r by simp
qed


section \<open>The state sink\<close>

lemma GetAsULong_integral: "GetAsULong v = None \<longleftrightarrow> \<not> integral v"
  by (cases v) simp_all

lemma GetFieldAsULong_None_iff:
  "GetFieldAsULong v name = None \<longleftrightarrow>
     (case GetField v name of None \<Rightarrow> True | Some f \<Rightarrow> \<not> integral f)"
  by (simp add: GetFieldAsULong_def GetAsULong_integral split: option.splits)

lemma GetFieldAsUInteger_None_iff:
  "(GetFieldAsUInteger v name :: 'a::len word option) = None \<longleftrightarrow> GetFieldAsULong v name = None"
  by (simp add: GetFieldAsUInteger_def)

subsection \<open>Claim C5\<close>

text \<open>
  C5: for every event whose header gives the category \<open>Image\<close> and the operation
  \<open>Load\<close> or \<open>DCStart\<close>: if the payload yields \<open>ModuleSize\<close>, \<open>ImageCheckSum\<close> and
  \<open>TimeDateStamp\<close> as unsigned integers, \<open>ImageFileName\<close> as a wide string and
  \<open>BaseAddress\<close> as a 64-bit integer, and the header yields \<open>process_id\<close> as a 64-bit
  integer, the sink's new state is the old one after
  \<^verbatim>\<open>LoadImage(process_id, BaseAddress, Image{size, checksum, timestamp, filename})\<close> with
  exactly those values; if any of the six extractions fails, the state of the sink, and
  so the image map, is unchanged. An integer extraction fails exactly when the field is
  absent or not of an integral kind (\<open>GetFieldAsULong_None_iff\<close>).
\<close>

theorem OnEvent_image_load:
  assumes "GetFieldAsString (header event) kCategoryFieldName = Some kImageCategory"
    and "GetFieldAsString (header event) kOperationFieldName = Some operation"
    and "operation = kImageLoadOperation \<or> operation = kImageDCStartOperation"
  shows "(GetFieldAsUInteger (payload event) ''ModuleSize'' = Some sz
          \<and> GetFieldAsUInteger (payload event) ''ImageCheckSum'' = Some cs
          \<and> GetFieldAsUInteger (payload event) ''TimeDateStamp'' = Some ts
          \<and> GetFieldAsWString (payload event) ''ImageFileName'' = Some fn
          \<and> GetFieldAsULong (payload event) ''BaseAddress'' = Some base_address
          \<and> GetFieldAsULong (header event) kProcessIdFieldName = Some pid
         \<longrightarrow> OnEvent use_dbghelp enum_symbols st event =
               st\<lparr> symbols := LoadImage (symbols st) pid base_address
                 \<lparr> img_size = sz, img_checksum = cs, img_timestamp = ts, img_filename = fn \<rparr> \<rparr>)
       \<and> ((GetFieldAsUInteger (payload event) ''ModuleSize'' :: 64 word option) = None
          \<or> (GetFieldAsUInteger (payload event) ''ImageCheckSum'' :: 32 word option) = None
          \<or> (GetFieldAsUInteger (payload event) ''TimeDateStamp'' :: 32 word option) = None
          \<or> GetFieldAsWString (payload event) ''ImageFileName'' = None
          \<or> GetFieldAsULong (payload event) ''BaseAddress'' = None
          \<or> GetFieldAsULong (header event) kProcessIdFieldName = None
         \<longrightarrow> OnEvent use_dbghelp enum_symbols st event = st)"
proof -
  have d: "OnEvent use_dbghelp enum_symbols st event = OnImageLoad st event"
    using assms by (auto simp: OnEvent_def)
  show ?thesis unfolding d by (auto simp: OnImageLoad_def split: option.splits)
qed

subsection \<open>Claim C8\<close>

text \<open>
  C8: for every event whose header gives a category and an operation other than
  \<open>(Image, Load)\<close>, \<open>(Image, DCStart)\<close>, \<open>(Image, Unload)\<close> and \<open>(StackWalk, Stack)\<close>,
  \<open>(Image, KernelBase)\<close> among them, \<^verbatim>\<open>OnEvent\<close> returns the state it was given: the
  image map and the symbol cache are unchanged.
\<close>

theorem OnEvent_ignores:
  assumes "GetFieldAsString (header event) kCategoryFieldName = Some category"
    and "GetFieldAsString (header event) kOperationFieldName = Some operation"
    and "(category, operation) \<notin>
           { (kImageCategory, kImageLoadOperation), (kImageCategory, kImageDCStartOperation),
             (kImageCategory, kImageUnloadOperation), (kStackWalkCategory, kStackOperation) }"
  shows "OnEvent use_dbghelp enum_symbols st event = st"
  using assms by (auto simp: OnEvent_def)

text \<open>An event whose header lacks the category or the operation is ignored too.\<close>

lemma OnEvent_without_names:
  "GetFieldAsString (header event) kCategoryFieldName = None
     \<or> GetFieldAsString (header event) kOperationFieldName = None
   \<Longrightarrow> OnEvent use_dbghelp enum_symbols st event = st"
  by (auto simp: OnEvent_def split: option.splits)

lemma image_header_names:
  "GetFieldAsString (image_header operation) kCategoryFieldName = Some kImageCategory"
  "GetFieldAsString (image_header operation) kOperationFieldName = Some operation"
  "GetFieldAsULong (image_header operation) kProcessIdFieldName = Some 5956"
  by (simp_all add: image_header_def GetFieldAsString_def GetFieldAsULong_def kCategoryFieldName_def
      kOperationFieldName_def kProcessIdFieldName_def kImageCategory_def)

text \<open>The \<open>Image/KernelBase\<close> event leaves the test state as it is.\<close>

theorem OnEvent_ignores_witness:
  "GetFieldAsString (header kernel_base_event) kCategoryFieldName = Some kImageCategory
   \<and> GetFieldAsString (header kernel_base_event) kOperationFieldName = Some kImageKernelBase
   \<and> OnEvent True test_symbols test_state kernel_base_event = test_state"
proof -
  have c: "GetFieldAsString (header kernel_base_event) kCategoryFieldName = Some kImageCategory"
    and o: "GetFieldAsString (header kernel_base_event) kOperationFieldName = Some kImageKernelBase"
    by (simp_all add: kernel_base_event_def image_header_names kImageKernelBase_def)
  have n: "(kImageCategory, kImageKernelBase) \<notin>
           { (kImageCategory, kImageLoadOperation), (kImageCategory, kImageDCStartOperation),
             (kImageCategory, kImageUnloadOperation), (kStackWalkCategory, kStackOperation) }"
    by (simp add: kImageCategory_def kImageKernelBase_def kImageLoadOperation_def
        kImageDCStartOperation_def kImageUnloadOperation_def kStackWalkCategory_def
        kStackOperation_def)
  from OnEvent_ignores[OF c o n] c o show ?thesis by simp
qed

text \<open>The \<open>Image/Load\<close> event loads the image it describes into process 5956.\<close>

theorem OnEvent_image_load_witness:
  "GetFieldAsString (header load_event) kCategoryFieldName = Some kImageCategory
   \<and> GetFieldAsString (header load_event) kOperationFieldName = Some kImageLoadOperation
   \<and> OnEvent True test_symbols test_state load_event =
       test_state\<lparr> symbols := LoadImage test_resolver 5956 0x7FEF7780000
         \<lparr> img_size = 0xE2000, img_checksum = 948129, img_timestamp = 1247534846,
           img_filename = wide ''fastprox.dll'' \<rparr> \<rparr>"
proof -
  have c: "GetFieldAsString (header load_event) kCategoryFieldName = Some kImageCategory"
    and o: "GetFieldAsString (header load_event) kOperationFieldName = Some kImageLoadOperation"
    by (simp_all add: load_event_def image_header_names kImageLoadOperation_def)
  have l: "kImageLoadOperation = kImageLoadOperation \<or> kImageLoadOperation = kImageDCStartOperation"
    by simp
  have f: "GetFieldAsUInteger (payload load_event) ''ModuleSize'' = Some (0xE2000 :: 64 word)
          \<and> GetFieldAsUInteger (payload load_event) ''ImageCheckSum'' = Some (948129 :: 32 word)
          \<and> GetFieldAsUInteger (payload load_event) ''TimeDateStamp'' = Some (1247534846 :: 32 word)
          \<and> GetFieldAsWString (payload load_event) ''ImageFileName'' = Some (wide ''fastprox.dll'')
          \<and> GetFieldAsULong (payload load_event) ''BaseAddress'' = Some 0x7FEF7780000
          \<and> GetFieldAsULong (header load_event) kProcessIdFieldName = Some 5956"
  proof -
    have "GetFieldAsULong (header load_event) kProcessIdFieldName = Some 5956"
      by (simp add: load_event_def image_header_names)
    then show ?thesis
      by (simp add: load_event_def load_payload_def GetFieldAsUInteger_def
          GetFieldAsULong_def GetFieldAsWString_def)
  qed
  from OnEvent_image_load[OF c o l, of "0xE2000" 948129 1247534846 "wide ''fastprox.dll''"
      "0x7FEF7780000" 5956 True test_symbols test_state] f
  have "OnEvent True test_symbols test_state load_event =
       test_state\<lparr> symbols := LoadImage (symbols test_state) 5956 0x7FEF7780000
         \<lparr> img_size = 0xE2000, img_checksum = 948129, img_timestamp = 1247534846,
           img_filename = wide ''fastprox.dll'' \<rparr> \<rparr>" by blast
  with c o show ?thesis by (simp add: test_state_def)
qed


subsection \<open>The sink keeps the invariants of the resolver\<close>

lemma symbolize_ok:
  "resolver_ok (symbols st) \<and> cache_ok (symbols st) \<Longrightarrow>
     resolver_ok (symbols (symbolize use_dbghelp enum_symbols pid stack names st))
     \<and> cache_ok (symbols (symbolize use_dbghelp enum_symbols pid stack names st))"
proof (induction stack arbitrary: names st)
  case Nil
  then show ?case by simp
next
  case (Cons v stack)
  show ?case
  proof (cases "GetAsULong v")
    case None
    with Cons.prems show ?thesis by simp
  next
    case (Some address)
    obtain r st' where R: "ResolveSymbol use_dbghelp enum_symbols (symbols st) pid address = (r, st')"
      by (cases "ResolveSymbol use_dbghelp enum_symbols (symbols st) pid address")
    have ok: "resolver_ok st' \<and> cache_ok st'"
      using Cons.prems resolver_ok_ResolveSymbol[of "symbols st" use_dbghelp enum_symbols pid address]
        cache_ok_ResolveSymbol[of "symbols st" use_dbghelp enum_symbols pid address] R by simp
    then have "resolver_ok (symbols (st\<lparr> symbols := st' \<rparr>)) \<and> cache_ok (symbols (st\<lparr> symbols := st' \<rparr>))"
      by simp
    from Cons.IH[OF this] Some R show ?thesis by (cases r) simp_all
  qed
qed

lemma OnEvent_ok:
  assumes "resolver_ok (symbols st) \<and> cache_ok (symbols st)"
  shows "resolver_ok (symbols (OnEvent use_dbghelp enum_symbols st event))
     \<and> cache_ok (symbols (OnEvent use_dbghelp enum_symbols st event))"
proof -
  have l: "resolver_ok (symbols (OnImageLoad st event)) \<and> cache_ok (symbols (OnImageLoad st event))"
    using assms by (auto simp: OnImageLoad_def resolver_ok_LoadImage cache_ok_LoadImage
        split: option.splits)
  have u: "resolver_ok (symbols (OnImageUnload st event)) \<and> cache_ok (symbols (OnImageUnload st event))"
    using assms by (auto simp: OnImageUnload_def resolver_ok_UnloadImage cache_ok_UnloadImage
        split: option.splits)
  have w: "resolver_ok (symbols (OnStackWalk use_dbghelp enum_symbols st event))
      \<and> cache_ok (symbols (OnStackWalk use_dbghelp enum_symbols st event))"
    using assms symbolize_ok[of st] by (auto simp: OnStackWalk_def split: option.splits)
  from assms l u w show ?thesis by (auto simp: OnEvent_def split: option.splits)
qed

section \<open>The parser front-end\<close>

lemma add_all_registered:
  "traces p \<noteq> [] \<Longrightarrow> add_all p paths = (replicate (length paths) False, p)"
  by (induction paths) (simp_all add: AddTraceFile_def)

lemma add_all_fresh:
  assumes "traces p = []"
  shows "(\<forall>i j. i < j \<and> j < length paths \<and> fst (add_all p paths) ! i \<longrightarrow>
            \<not> fst (add_all p paths) ! j)
       \<and> length (traces (snd (add_all p paths))) \<le> 1"
  using assms
proof (induction paths)
  case Nil
  then show ?case by simp
next
  case (Cons a paths)
  show ?case
  proof (cases "WStringEndsWith a kEtlExtension")
    case True
    then have "add_all p (a # paths) = (True # replicate (length paths) False, p\<lparr> traces := [a] \<rparr>)"
      using Cons.prems by (simp add: AddTraceFile_def add_all_registered)
    then show ?thesis by (auto simp: nth_Cons')
  next
    case False
    then have "AddTraceFile p a = (False, p)" using Cons.prems by (simp add: AddTraceFile_def)
    then have e: "fst (add_all p (a # paths)) = False # fst (add_all p paths)"
      and t: "snd (add_all p (a # paths)) = snd (add_all p paths)"
      by (simp_all split: prod.splits)
    have IH: "\<forall>i j. i < j \<and> j < length paths \<and> fst (add_all p paths) ! i \<longrightarrow>
            \<not> fst (add_all p paths) ! j"
      and IH2: "length (traces (snd (add_all p paths))) \<le> 1"
      using Cons by blast+
    have "\<not> fst (add_all p (a # paths)) ! j"
      if "i < j" "j < length (a # paths)" "fst (add_all p (a # paths)) ! i" for i j
    proof -
      from that(3) e obtain i' where i: "i = Suc i'" by (cases i) auto
      with that(1) obtain j' where j: "j = Suc j'" by (cases j) auto
      from that i j e IH show ?thesis by auto
    qed
    with t IH2 show ?thesis by auto
  qed
qed

subsection \<open>Claim C6\<close>

text \<open>
  C6: \<^verbatim>\<open>AddTraceFile\<close> fails whenever a source is already registered and whenever the
  path does not end with the trace extension; a failing call returns the parser
  unchanged; a call on a parser without a source and with a path that ends with the
  extension succeeds and registers that path. So in any sequence of calls on a new
  parser every call after a successful one fails, and at most one source is registered.
\<close>

theorem AddTraceFile_once:
  "(traces p \<noteq> [] \<longrightarrow> AddTraceFile p path = (False, p))
   \<and> (\<not> suffix kEtlExtension path \<longrightarrow> AddTraceFile p path = (False, p))
   \<and> (traces p = [] \<and> suffix kEtlExtension path \<longrightarrow>
        AddTraceFile p path = (True, p\<lparr> traces := [path] \<rparr>))
   \<and> (\<not> fst (AddTraceFile p path) \<longrightarrow> snd (AddTraceFile p path) = p)
   \<and> (\<forall>i j. i < j \<and> j < length paths \<and> fst (add_all (new_parser zero) paths) ! i \<longrightarrow>
        \<not> fst (add_all (new_parser zero) paths) ! j)
   \<and> length (traces (snd (add_all (new_parser zero) paths))) \<le> 1"
proof (intro conjI)
  show "traces p \<noteq> [] \<longrightarrow> AddTraceFile p path = (False, p)"
    by (simp add: AddTraceFile_def)
  show "\<not> suffix kEtlExtension path \<longrightarrow> AddTraceFile p path = (False, p)"
    by (simp add: AddTraceFile_def WStringEndsWith_def)
  show "traces p = [] \<and> suffix kEtlExtension path \<longrightarrow>
        AddTraceFile p path = (True, p\<lparr> traces := [path] \<rparr>)"
    by (simp add: AddTraceFile_def WStringEndsWith_def)
  show "\<not> fst (AddTraceFile p path) \<longrightarrow> snd (AddTraceFile p path) = p"
    by (simp add: AddTraceFile_def)
  have n: "traces (new_parser zero) = []" by (simp add: new_parser_def)
  show "\<forall>i j. i < j \<and> j < length paths \<and> fst (add_all (new_parser zero) paths) ! i \<longrightarrow>
        \<not> fst (add_all (new_parser zero) paths) ! j"
    using add_all_fresh[OF n, of paths] by blast
  show "length (traces (snd (add_all (new_parser zero) paths))) \<le> 1"
    using add_all_fresh[OF n, of paths] by blast
qed

text \<open>Three calls on a new parser: a text file is refused, the trace is accepted, a
  second trace is refused.\<close>

theorem AddTraceFile_once_witness:
  "traces (new_parser (0::nat)) = [] \<and> suffix kEtlExtension etl_path
   \<and> \<not> suffix kEtlExtension txt_path
   \<and> add_all (new_parser (0::nat)) [txt_path, etl_path, etl_path] =
       ([False, True, False], (new_parser 0)\<lparr> traces := [etl_path] \<rparr>)"
proof -
  have s1: "suffix kEtlExtension etl_path"
    by (simp add: suffix_def etl_path_def kEtlExtension_def wide_def)
  have s2: "\<not> suffix kEtlExtension txt_path"
    by (simp add: suffix_def txt_path_def kEtlExtension_def wide_def)
  have n: "traces (new_parser (0::nat)) = []" by (simp add: new_parser_def)
  have n': "traces ((new_parser (0::nat))\<lparr> traces := [etl_path] \<rparr>) \<noteq> []" by simp
  from AddTraceFile_once[of "new_parser (0::nat)" txt_path "[]" 0] s2
  have a1: "AddTraceFile (new_parser (0::nat)) txt_path = (False, new_parser 0)" by blast
  from AddTraceFile_once[of "new_parser (0::nat)" etl_path "[]" 0] s1 n
  have a2: "AddTraceFile (new_parser (0::nat)) etl_path = (True, (new_parser 0)\<lparr> traces := [etl_path] \<rparr>)"
    by blast
  from AddTraceFile_once[of "(new_parser (0::nat))\<lparr> traces := [etl_path] \<rparr>" etl_path "[]" 0] n'
  have a3: "AddTraceFile ((new_parser (0::nat))\<lparr> traces := [etl_path] \<rparr>) etl_path =
      (False, (new_parser 0)\<lparr> traces := [etl_path] \<rparr>)" by blast
  from a1 a2 a3 s1 s2 n show ?thesis by simp
qed


subsection \<open>Claim C9\<close>

text \<open>
  C9: decoding the \<open>DebuggerEnabled\<close> event of the \<open>PerfInfo\<close> provider (opcode 58,
  version 2, 64-bit) with an empty payload succeeds with category \<open>PerfInfo\<close>, operation
  \<open>DebuggerEnabled\<close> and a struct without fields, both for a null pointer with length 0
  and for a pointer to a buffer with length 0.
\<close>

theorem DebuggerEnabled_empty_payload:
  "DecodeRawETWKernelPayload other_entries kPerfInfoProviderId 2 kPerfInfoDebuggerEnabledOpcode True
      None 0 = Some (''DebuggerEnabled'', ''PerfInfo'', StructValue [])
   \<and> DecodeRawETWKernelPayload other_entries kPerfInfoProviderId 2 kPerfInfoDebuggerEnabledOpcode True
      (Some [0x00]) 0 = Some (''DebuggerEnabled'', ''PerfInfo'', StructValue [])"
  by (simp add: DecodeRawETWKernelPayload_def category_of_provider_def kPerfInfoProviderId_def
      DecodePerfInfoDebuggerEnabled_def)


lemma ProcessEvent_latch:
  "first_event_raw_ts (fst (ProcessEvent decode to_ticks p r)) =
     (if first_event_raw_ts p = 0 then TimeStamp r else first_event_raw_ts p)"
  by (simp add: ProcessEvent_def Let_def split: option.splits prod.splits)

lemma ProcessEvent_timestamp:
  "snd (ProcessEvent decode to_ticks p r) = Some ev \<Longrightarrow>
     ev_timestamp ev = first_event_system_ts p
       + to_ticks (TimeStamp r - (if first_event_raw_ts p = 0 then TimeStamp r else first_event_raw_ts p))
           (perf_period p)"
  by (auto simp: ProcessEvent_def Let_def split: option.splits prod.splits if_splits)

lemma process_records_latch:
  "first_event_raw_ts (fst (process_records decode to_ticks p rs)) =
     (if first_event_raw_ts p \<noteq> 0 then first_event_raw_ts p
      else case find (\<lambda>r. TimeStamp r \<noteq> 0) rs of None \<Rightarrow> 0 | Some r \<Rightarrow> TimeStamp r)"
proof (induction rs arbitrary: p)
  case Nil
  then show ?case by simp
next
  case (Cons r rs)
  obtain p' ev where pe: "ProcessEvent decode to_ticks p r = (p', ev)"
    by (cases "ProcessEvent decode to_ticks p r")
  have l: "first_event_raw_ts p' = (if first_event_raw_ts p = 0 then TimeStamp r else first_event_raw_ts p)"
    using ProcessEvent_latch[of decode to_ticks p r] pe by simp
  have "fst (process_records decode to_ticks p (r # rs)) = fst (process_records decode to_ticks p' rs)"
    using pe by (simp split: prod.splits)
  then show ?case using Cons.IH[of p'] l by simp
qed

subsection \<open>Claim C10\<close>

text \<open>
  C10: \<^verbatim>\<open>ProcessEvent\<close> stores the raw timestamp of a record as the baseline only when
  the stored baseline is zero, and computes the timestamp of the event with the baseline
  as it is after that step. So over the records of a parse, which starts with baseline
  zero, the baseline is the raw timestamp of the first record whose raw timestamp is not
  zero (zero if there is none): a first record with raw timestamp 0 is converted with
  baseline 0 and leaves the baseline to a later record.
\<close>

theorem baseline_is_first_nonzero:
  "first_event_raw_ts (fst (ProcessEvent decode to_ticks p r)) =
     (if first_event_raw_ts p = 0 then TimeStamp r else first_event_raw_ts p)
   \<and> (\<forall>ev. snd (ProcessEvent decode to_ticks p r) = Some ev \<longrightarrow>
        ev_timestamp ev = first_event_system_ts p
          + to_ticks (TimeStamp r - (if first_event_raw_ts p = 0 then TimeStamp r else first_event_raw_ts p))
              (perf_period p))
   \<and> (first_event_raw_ts p = 0 \<longrightarrow>
        first_event_raw_ts (fst (process_records decode to_ticks p rs)) =
          (case find (\<lambda>r. TimeStamp r \<noteq> 0) rs of None \<Rightarrow> 0 | Some r \<Rightarrow> TimeStamp r))"
  using ProcessEvent_latch[of decode to_ticks p r] ProcessEvent_timestamp[of decode to_ticks p r]
    process_records_latch[of decode to_ticks p rs]
  by simp


lemma test_record_decodes:
  "DecodeRawETWKernelPayload no_other_entries (ProviderId (test_record ts)) (Version (test_record ts))
     (Opcode (test_record ts)) (Is64BitHeader (test_record ts)) (UserData (test_record ts))
     (UserDataLength (test_record ts)) = Some (''DebuggerEnabled'', ''PerfInfo'', StructValue [])"
  by (simp add: test_record_def DecodeRawETWKernelPayload_def category_of_provider_def
      kPerfInfoProviderId_def DecodePerfInfoDebuggerEnabled_def)

text \<open>Records with raw timestamps 0, 500, 700: the baseline ends at 500, not at the
  first record's 0; the events are at 1000, 1000 and 1000 + 2 * (700 - 500).\<close>

theorem baseline_is_first_nonzero_witness:
  "first_event_raw_ts started_parser = 0
   \<and> TimeStamp (hd test_records) = 0
   \<and> first_event_raw_ts
        (fst (process_records (DecodeRawETWKernelPayload no_other_entries) scaled started_parser
               test_records)) = 500
   \<and> map ev_timestamp
        (snd (process_records (DecodeRawETWKernelPayload no_other_entries) scaled started_parser
               test_records)) = [1000, 1000, 1400]"
proof -
  have z: "first_event_raw_ts started_parser = 0"
    by (simp add: started_parser_def new_parser_def)
  have f: "(case find (\<lambda>r. TimeStamp r \<noteq> 0) test_records of None \<Rightarrow> 0 | Some r \<Rightarrow> TimeStamp r) = 500"
    by (simp add: test_records_def test_record_def)
  from baseline_is_first_nonzero[of "DecodeRawETWKernelPayload no_other_entries" scaled
      started_parser "test_record 0" test_records] z f
  have b: "first_event_raw_ts
        (fst (process_records (DecodeRawETWKernelPayload no_other_entries) scaled started_parser
               test_records)) = 500" by simp
  have e: "map ev_timestamp
        (snd (process_records (DecodeRawETWKernelPayload no_other_entries) scaled started_parser
               test_records)) = [1000, 1000, 1400]"
    by (simp add: test_records_def ProcessEvent_def test_record_decodes Let_def scaled_def
        started_parser_def new_parser_def)
       (simp add: test_record_def)
  have h: "TimeStamp (hd test_records) = 0" by (simp add: test_records_def test_record_def)
  from z h b e show ?thesis by simp
qed


end
